theory Spec2Isabelle
  imports Main
begin

section \<open>Python values, errors and query dictionaries\<close>

text \<open>
  Exceptions that the views or the framework calls they make can raise.  A view that raises
  \<open>Http404\<close> is answered with a 404 page by the framework; the other exceptions would
  surface as a server error.
\<close>

datatype error = Http404 | MultipleObjectsReturned | IntegrityError | ValueError | TypeError
  | PageNotAnInteger | EmptyPage | ZeroDivisionError

text \<open>
  \<open>request.GET\<close> and \<open>request.POST\<close> are query dictionaries: a key may occur several
  times, and \<open>get\<close> returns the value of its last occurrence, or \<open>None\<close>.
\<close>

type_synonym querydict = "(string \<times> string) list"

definition qd_get :: "querydict \<Rightarrow> string \<Rightarrow> string option" where
  "qd_get q k = (case filter (\<lambda>kv. fst kv = k) q of
                   [] \<Rightarrow> None
                 | kv # kvs \<Rightarrow> Some (snd (last (kv # kvs))))"

text \<open>The values that reach \<open>Paginator.validate_number\<close>: \<open>None\<close>, a string, an integer.\<close>

datatype pyval = PyNone | PyStr string | PyInt int

text \<open>
  Python's \<open>int(number)\<close>.  On \<open>None\<close> it raises \<open>TypeError\<close>, on a string that is
  not an integer literal \<open>ValueError\<close>; both are the result \<open>None\<close> here.  The
  conversion of strings is a parameter \<open>to_int\<close> of the model, so that every theorem holds
  whatever strings Python accepts as integer literals.
\<close>

definition py_int :: "(string \<Rightarrow> int option) \<Rightarrow> pyval \<Rightarrow> int option" where
  "py_int to_int v = (case v of PyNone \<Rightarrow> None | PyStr s \<Rightarrow> to_int s | PyInt n \<Rightarrow> Some n)"

text \<open>
  A concrete conversion for evaluating the model: an optional minus sign and decimal digits.
  It agrees with Python's \<open>int\<close> on the strings used in this theory.
\<close>

definition digit_val :: "char \<Rightarrow> nat option" where
  "digit_val c =
     (let code = (of_char c :: nat)
      in if 48 \<le> code \<and> code \<le> 57 then Some (code - 48) else None)"

fun dec_nat :: "nat \<Rightarrow> string \<Rightarrow> nat option" where
  "dec_nat acc [] = Some acc"
| "dec_nat acc (c # cs) =
     (case digit_val c of None \<Rightarrow> None | Some d \<Rightarrow> dec_nat (10 * acc + d) cs)"

definition dec_int :: "string \<Rightarrow> int option" where
  "dec_int s = (case s of
       [] \<Rightarrow> None
     | c # cs \<Rightarrow>
         if c = CHR ''-'' then
           (if cs = [] then None else map_option (\<lambda>n. - int n) (dec_nat 0 cs))
         else map_option int (dec_nat 0 (c # cs)))"

section \<open>The paginator (\<open>django.core.paginator\<close>)\<close>

text \<open>
  \<open>get_paginator\<close> in \<open>posts/views.py\<close> builds a \<open>Paginator\<close> of the framework and
  calls its \<open>get_page\<close>.  The class is not part of the repository; its methods
  \<open>count\<close>, \<open>num_pages\<close>, \<open>validate_number\<close>, \<open>page\<close> and \<open>get_page\<close> are
  written here as the framework defines them.  \<open>get_page\<close> answers a page number that
  is not an integer with page 1 and an \<open>EmptyPage\<close> error, which \<open>validate_number\<close>
  raises for a number below 1 as for a number above the last page, with the last page.
\<close>

record 'a paginator =
  object_list :: "'a list"
  per_page :: int
  orphans :: int
  allow_empty_first_page :: bool

text \<open>\<open>Paginator(object_list, per_page)\<close> with the defaults of the other two arguments.\<close>

definition Paginator :: "'a list \<Rightarrow> int \<Rightarrow> 'a paginator" where
  "Paginator ol pp =
     \<lparr>object_list = ol, per_page = pp, orphans = 0, allow_empty_first_page = True\<rparr>"

record 'a page =
  page_object_list :: "'a list"
  page_number :: int
  page_paginator :: "'a paginator"

definition count :: "'a paginator \<Rightarrow> int" where
  "count p = int (length (object_list p))"

text \<open>\<open>ceil(hits / per_page)\<close>; the division raises when \<open>per_page\<close> is zero.\<close>

definition num_pages :: "'a paginator \<Rightarrow> error + int" where
  "num_pages p =
     (if count p = 0 \<and> \<not> allow_empty_first_page p then Inr 0
      else let hits = max 1 (count p - orphans p)
           in if per_page p = 0 then Inl ZeroDivisionError
              else Inr (- ((- hits) div per_page p)))"

definition validate_number ::
  "(string \<Rightarrow> int option) \<Rightarrow> 'a paginator \<Rightarrow> pyval \<Rightarrow> error + int" where
  "validate_number to_int p number =
     (case py_int to_int number of
        None \<Rightarrow> Inl PageNotAnInteger
      | Some n \<Rightarrow>
          if n < 1 then Inl EmptyPage
          else (case num_pages p of
                  Inl e \<Rightarrow> Inl e
                | Inr np \<Rightarrow>
                    if n > np then
                      (if n = 1 \<and> allow_empty_first_page p then Inr n else Inl EmptyPage)
                    else Inr n))"

text \<open>
  \<open>object_list[bottom:top]\<close> for bounds that are not negative (the only ones \<open>page\<close>
  computes, since a validated page number is at least 1).
\<close>

definition slice :: "'a list \<Rightarrow> int \<Rightarrow> int \<Rightarrow> 'a list" where
  "slice xs bottom upper = take (nat (upper - bottom)) (drop (nat bottom) xs)"

definition page ::
  "(string \<Rightarrow> int option) \<Rightarrow> 'a paginator \<Rightarrow> pyval \<Rightarrow> error + 'a page" where
  "page to_int p number =
     (case validate_number to_int p number of
        Inl e \<Rightarrow> Inl e
      | Inr n \<Rightarrow>
          let bottom = (n - 1) * per_page p;
              top0 = bottom + per_page p;
              top1 = (if top0 + orphans p \<ge> count p then count p else top0)
          in Inr \<lparr>page_object_list = slice (object_list p) bottom top1,
                  page_number = n, page_paginator = p\<rparr>)"

definition get_page ::
  "(string \<Rightarrow> int option) \<Rightarrow> 'a paginator \<Rightarrow> pyval \<Rightarrow> error + 'a page" where
  "get_page to_int p number =
     (case validate_number to_int p number of
        Inr n \<Rightarrow> page to_int p (PyInt n)
      | Inl PageNotAnInteger \<Rightarrow> page to_int p (PyInt 1)
      | Inl EmptyPage \<Rightarrow>
          (case num_pages p of Inl e \<Rightarrow> Inl e | Inr np \<Rightarrow> page to_int p (PyInt np))
      | Inl e \<Rightarrow> Inl e)"


section \<open>The data model (\<open>posts/models.py\<close>)\<close>

text \<open>
  Every model has the automatic primary key of the framework.  A foreign key is stored as
  the primary key of the row it refers to.
\<close>

record User =
  user_pk :: nat
  username :: string

record Group =
  group_pk :: nat
  title :: string
  slug :: string
  description :: string

text \<open>
  Modelled from the spec: \<open>core.models.CreatedModel\<close>, the base class of \<open>Post\<close> and
  \<open>Comment\<close>, is missing; the spec gives both entities a creation timestamp, and
  \<open>Post.Meta.ordering\<close> names it \<open>pub_date\<close>.  It is set to the time of the insertion.
\<close>

record Post =
  post_pk :: nat
  post_text :: string
  pub_date :: int
  post_author :: nat
  post_group :: "nat option"
  post_image :: string

record Comment =
  comment_pk :: nat
  comment_post :: nat
  comment_author :: nat
  comment_text :: string
  comment_pub_date :: int

record Follow =
  follow_pk :: nat
  follow_user :: nat
  follow_author :: nat

section \<open>Requests and responses\<close>

text \<open>\<open>request.user\<close> is the anonymous user or a row of the user table.\<close>

datatype actor = AnonymousUser | AuthUser User

fun is_authenticated :: "actor \<Rightarrow> bool" where
  "is_authenticated AnonymousUser = False"
| "is_authenticated (AuthUser u) = True"

text \<open>
  \<open>now\<close> is the server's clock when the request is handled; \<open>path\<close> and \<open>GET\<close>
  together are the full path of the request.
\<close>

record request =
  user :: actor
  http_method :: string
  path :: string
  GET :: querydict
  POST :: querydict
  FILES :: querydict
  now :: int

definition get_full_path :: "request \<Rightarrow> string \<times> querydict" where
  "get_full_path req = (path req, GET req)"

text \<open>Python's \<open>x or None\<close> on a dictionary: an empty dictionary is false.\<close>

definition or_None :: "querydict \<Rightarrow> querydict option" where
  "or_None q = (if q = [] then None else Some q)"

text \<open>
  A form after its construction: whether it is bound to data, the validation messages of
  the bound data, and the cleaned values, which exist when the bound data is valid.
\<close>

record 'c form =
  is_bound :: bool
  errors :: "string list"
  cleaned_data :: "'c option"

definition is_valid :: "'c form \<Rightarrow> bool" where
  "is_valid f = (is_bound f \<and> errors f = [])"

text \<open>
  The values a valid \<open>PostForm\<close> writes to its instance.  The tests show the fields
  \<open>text\<close>, \<open>group\<close> and \<open>image\<close>; \<open>c_author\<close> is \<open>None\<close> unless the form also
  has an author field.
\<close>

record post_cleaned =
  c_text :: string
  c_group :: "nat option"
  c_image :: string
  c_author :: "nat option"

text \<open>The targets of the redirects: named routes with their arguments, and the login page.\<close>

datatype location =
    ProfileUrl string
  | PostDetailUrl nat
  | LoginUrl "string \<times> querydict"

datatype ctx_val =
    CPage "Post page"
  | CGroup Group
  | CUser User
  | CBool bool
  | CNat nat
  | CPost Post
  | CComments "Comment list"
  | CPostForm "post_cleaned form"
  | CCommentForm "string form"

type_synonym ctx = "(string \<times> ctx_val) list"

datatype response = Render string ctx | Redirect location

section \<open>The state: the tables and the page cache\<close>

type_synonym cache_key = "string \<times> string \<times> string \<times> querydict"

record db =
  users :: "User list"
  groups :: "Group list"
  posts :: "Post list"
  comments :: "Comment list"
  follows :: "Follow list"
  cache :: "(cache_key \<times> int \<times> response) list"

type_synonym result = "db \<times> (error + response)"

text \<open>
  The primary key of an inserted row: one that no row of the table has.  The foreign keys
  of an inserted row are not checked against the tables they refer to.
\<close>

definition fresh_pk :: "nat list \<Rightarrow> nat" where
  "fresh_pk pks = Suc (fold max pks 0)"

text \<open>
  \<open>get_object_or_404(klass, **kwargs)\<close>: the single row that satisfies the condition;
  no row raises \<open>Http404\<close>, several rows raise \<open>MultipleObjectsReturned\<close>.
\<close>

definition get_object_or_404 :: "'a list \<Rightarrow> ('a \<Rightarrow> bool) \<Rightarrow> error + 'a" where
  "get_object_or_404 objects cond =
     (case filter cond objects of
        [] \<Rightarrow> Inl Http404
      | [x] \<Rightarrow> Inr x
      | x # y # zs \<Rightarrow> Inl MultipleObjectsReturned)"

text \<open>
  \<open>Meta.ordering = ['-pub_date']\<close>: every query set of posts is ordered by it.  Posts
  of the same creation time keep the order of the table here; the database leaves their
  order open, and no property below depends on it.
\<close>

definition order_by_pub_date_desc :: "Post list \<Rightarrow> Post list" where
  "order_by_pub_date_desc ps = sort_key (\<lambda>p. - pub_date p) ps"

definition Post_objects_all :: "db \<Rightarrow> Post list" where
  "Post_objects_all s = order_by_pub_date_desc (posts s)"

definition group_posts_all :: "db \<Rightarrow> Group \<Rightarrow> Post list" where
  "group_posts_all s g =
     order_by_pub_date_desc (filter (\<lambda>p. post_group p = Some (group_pk g)) (posts s))"

definition author_posts_all :: "db \<Rightarrow> User \<Rightarrow> Post list" where
  "author_posts_all s a =
     order_by_pub_date_desc (filter (\<lambda>p. post_author p = user_pk a) (posts s))"

text \<open>
  \<open>Post.objects.filter(author__following__user=u)\<close>: the join of the posts with the
  follow rows of their author, one result row for each follow row of \<open>u\<close> that matches.
\<close>

definition Post_objects_filter_following :: "db \<Rightarrow> User \<Rightarrow> Post list" where
  "Post_objects_filter_following s u =
     order_by_pub_date_desc
       (concat (map (\<lambda>p. map (\<lambda>f. p)
                 (filter (\<lambda>f. follow_author f = post_author p \<and> follow_user f = user_pk u)
                         (follows s)))
               (posts s)))"

definition Follow_objects_filter :: "db \<Rightarrow> nat \<Rightarrow> nat \<Rightarrow> Follow list" where
  "Follow_objects_filter s u a =
     filter (\<lambda>f. follow_user f = u \<and> follow_author f = a) (follows s)"

text \<open>\<open>Follow.objects.create\<close>; \<open>unique_together\<close> rejects a second row of a pair.\<close>

definition Follow_objects_create :: "db \<Rightarrow> nat \<Rightarrow> nat \<Rightarrow> error + db" where
  "Follow_objects_create s u a =
     (if Follow_objects_filter s u a \<noteq> [] then Inl IntegrityError
      else Inr (s\<lparr>follows := follows s @
                  [\<lparr>follow_pk = fresh_pk (map follow_pk (follows s)),
                    follow_user = u, follow_author = a\<rparr>]\<rparr>))"

definition Follow_delete :: "db \<Rightarrow> nat \<Rightarrow> nat \<Rightarrow> db" where
  "Follow_delete s u a =
     s\<lparr>follows := filter (\<lambda>f. \<not> (follow_user f = u \<and> follow_author f = a)) (follows s)\<rparr>"


section \<open>Forms (\<open>posts/forms.py\<close> is missing: validation is a parameter)\<close>

text \<open>
  \<open>BaseForm.__init__\<close>: a form is bound when it is given data or files.  The validation
  itself, \<open>full_clean\<close>, is a parameter: from the data and the files it computes the
  validation messages and the cleaned values.
\<close>

definition bind_form ::
  "(querydict \<Rightarrow> querydict \<Rightarrow> string list \<times> 'c)
     \<Rightarrow> querydict option \<Rightarrow> querydict option \<Rightarrow> 'c form" where
  "bind_form full_clean data files =
     (if data = None \<and> files = None then
        \<lparr>is_bound = False, errors = [], cleaned_data = None\<rparr>
      else
        let (es, c) = full_clean (case data of None \<Rightarrow> [] | Some d \<Rightarrow> d)
                                 (case files of None \<Rightarrow> [] | Some f \<Rightarrow> f)
        in \<lparr>is_bound = True, errors = es,
            cleaned_data = (if es = [] then Some c else None)\<rparr>)"

type_synonym post_clean =
  "db \<Rightarrow> Post option \<Rightarrow> querydict \<Rightarrow> querydict \<Rightarrow> string list \<times> post_cleaned"

type_synonym comment_clean = "db \<Rightarrow> querydict \<Rightarrow> string list \<times> string"

definition PostForm ::
  "post_clean \<Rightarrow> db \<Rightarrow> querydict option \<Rightarrow> querydict option \<Rightarrow> Post option
     \<Rightarrow> post_cleaned form" where
  "PostForm pc s data files instance = bind_form (pc s instance) data files"

definition CommentForm :: "comment_clean \<Rightarrow> db \<Rightarrow> querydict option \<Rightarrow> string form" where
  "CommentForm cc s data = bind_form (\<lambda>d f. cc s d) data None"

section \<open>Decorators\<close>

text \<open>
  \<open>login_required\<close>: an anonymous request is redirected to the login page, with the full
  path of the request as its \<open>next\<close> parameter, and the view is not called.
\<close>

definition login_required :: "(db \<Rightarrow> request \<Rightarrow> result) \<Rightarrow> db \<Rightarrow> request \<Rightarrow> result" where
  "login_required view s req =
     (if is_authenticated (user req) then view s req
      else (s, Inr (Redirect (LoginUrl (get_full_path req)))))"

text \<open>
  \<open>cache_page(timeout, key_prefix)\<close>: a \<open>GET\<close> or \<open>HEAD\<close> request is answered from
  the cache when the cache holds an entry for it that has not expired; otherwise the view
  is called and a rendered page is stored for \<open>timeout\<close> seconds.  The key is the prefix,
  the method and the full path; the headers that the framework adds to the key are not
  part of a request here.
\<close>

definition cache_get :: "db \<Rightarrow> int \<Rightarrow> cache_key \<Rightarrow> response option" where
  "cache_get s t k =
     (case map_of (cache s) k of
        None \<Rightarrow> None
      | Some (expires, r) \<Rightarrow> if t < expires then Some r else None)"

definition cache_set :: "db \<Rightarrow> cache_key \<Rightarrow> int \<Rightarrow> response \<Rightarrow> db" where
  "cache_set s k expires r = s\<lparr>cache := (k, (expires, r)) # cache s\<rparr>"

definition cache_page ::
  "int \<Rightarrow> string \<Rightarrow> (db \<Rightarrow> request \<Rightarrow> result) \<Rightarrow> db \<Rightarrow> request \<Rightarrow> result" where
  "cache_page timeout key_prefix view s req =
     (if http_method req \<noteq> ''GET'' \<and> http_method req \<noteq> ''HEAD'' then view s req
      else
        let (p, q) = get_full_path req;
            hit = (case cache_get s (now req) (key_prefix, ''GET'', p, q) of
                     Some r \<Rightarrow> Some r
                   | None \<Rightarrow>
                       if http_method req = ''HEAD''
                       then cache_get s (now req) (key_prefix, ''HEAD'', p, q)
                       else None)
        in case hit of
             Some r \<Rightarrow> (s, Inr r)
           | None \<Rightarrow>
               (case view s req of
                  (s', Inr (Render t c)) \<Rightarrow>
                    (cache_set s' (key_prefix, http_method req, p, q) (now req + timeout)
                       (Render t c),
                     Inr (Render t c))
                | (s', r) \<Rightarrow> (s', r)))"

section \<open>The views (\<open>posts/views.py\<close>)\<close>

definition NUMBER_OF_POSTS :: int where
  "NUMBER_OF_POSTS = 10"

definition get_paginator ::
  "(string \<Rightarrow> int option) \<Rightarrow> request \<Rightarrow> Post list \<Rightarrow> error + Post page" where
  "get_paginator to_int req post_list =
     (let paginator = Paginator post_list NUMBER_OF_POSTS;
          page_number = (case qd_get (GET req) ''page'' of
                           None \<Rightarrow> PyNone
                         | Some v \<Rightarrow> PyStr v)
      in get_page to_int paginator page_number)"

definition index_view :: "(string \<Rightarrow> int option) \<Rightarrow> db \<Rightarrow> request \<Rightarrow> result" where
  "index_view to_int s req =
     (case get_paginator to_int req (Post_objects_all s) of
        Inl e \<Rightarrow> (s, Inl e)
      | Inr page_obj \<Rightarrow>
          (s, Inr (Render ''posts/index.html'' [(''page_obj'', CPage page_obj)])))"

definition index :: "(string \<Rightarrow> int option) \<Rightarrow> db \<Rightarrow> request \<Rightarrow> result" where
  "index to_int = cache_page 20 ''index_page'' (index_view to_int)"

definition group_posts ::
  "(string \<Rightarrow> int option) \<Rightarrow> db \<Rightarrow> request \<Rightarrow> string \<Rightarrow> result" where
  "group_posts to_int s req slug_arg =
     (case get_object_or_404 (groups s) (\<lambda>g. slug g = slug_arg) of
        Inl e \<Rightarrow> (s, Inl e)
      | Inr grp \<Rightarrow>
          (case get_paginator to_int req (group_posts_all s grp) of
             Inl e \<Rightarrow> (s, Inl e)
           | Inr page_obj \<Rightarrow>
               (s, Inr (Render ''posts/group_list.html''
                          [(''group'', CGroup grp), (''page_obj'', CPage page_obj)]))))"

definition profile ::
  "(string \<Rightarrow> int option) \<Rightarrow> db \<Rightarrow> request \<Rightarrow> string \<Rightarrow> result" where
  "profile to_int s req username_arg =
     (case get_object_or_404 (users s) (\<lambda>u. username u = username_arg) of
        Inl e \<Rightarrow> (s, Inl e)
      | Inr author \<Rightarrow>
          (case get_paginator to_int req (author_posts_all s author) of
             Inl e \<Rightarrow> (s, Inl e)
           | Inr page_obj \<Rightarrow>
               let following =
                     (case user req of
                        AnonymousUser \<Rightarrow> False
                      | AuthUser u \<Rightarrow>
                          Follow_objects_filter s (user_pk u) (user_pk author) \<noteq> [])
               in (s, Inr (Render ''posts/profile.html''
                             [(''author'', CUser author), (''page_obj'', CPage page_obj),
                              (''following'', CBool following)]))))"

definition post_detail :: "comment_clean \<Rightarrow> db \<Rightarrow> request \<Rightarrow> nat \<Rightarrow> result" where
  "post_detail cc s req post_id =
     (case get_object_or_404 (posts s) (\<lambda>p. post_pk p = post_id) of
        Inl e \<Rightarrow> (s, Inl e)
      | Inr post \<Rightarrow>
          (s, Inr (Render ''posts/post_detail.html''
                     [(''post'', CPost post),
                      (''comments'',
                         CComments (filter (\<lambda>c. comment_post c = post_pk post) (comments s))),
                      (''form'', CCommentForm (CommentForm cc s None))])))"


text \<open>
  \<open>post_create\<close>.  \<open>form.save(commit=False)\<close> builds the new post from the cleaned
  values, \<open>post.author = request.user\<close> then replaces whatever author it has, and
  \<open>form.save()\<close> inserts the row; the creation time is the time of the insertion.
\<close>

definition Post_insert :: "db \<Rightarrow> int \<Rightarrow> post_cleaned \<Rightarrow> nat \<Rightarrow> db" where
  "Post_insert s t c author_pk =
     s\<lparr>posts := posts s @
         [\<lparr>post_pk = fresh_pk (map post_pk (posts s)), post_text = c_text c, pub_date = t,
           post_author = author_pk, post_group = c_group c, post_image = c_image c\<rparr>]\<rparr>"

definition post_create_view :: "post_clean \<Rightarrow> db \<Rightarrow> request \<Rightarrow> result" where
  "post_create_view pc s req =
     (let form = PostForm pc s (or_None (POST req)) (or_None (FILES req)) None
      in case (if http_method req = ''POST'' \<and> is_valid form then cleaned_data form else None) of
           Some c \<Rightarrow>
             (case user req of
                AnonymousUser \<Rightarrow> (s, Inl ValueError)
              | AuthUser u \<Rightarrow>
                  (Post_insert s (now req) c (user_pk u),
                   Inr (Redirect (ProfileUrl (username u)))))
         | None \<Rightarrow>
             (s, Inr (Render ''posts/post_create.html'' [(''form'', CPostForm form)])))"

definition post_create :: "post_clean \<Rightarrow> db \<Rightarrow> request \<Rightarrow> result" where
  "post_create pc = login_required (post_create_view pc)"

text \<open>
  \<open>request.user != post.author\<close>: model instances are equal when their primary keys
  are, and the anonymous user equals no row of the user table.
\<close>

fun user_differs :: "actor \<Rightarrow> nat \<Rightarrow> bool" where
  "user_differs AnonymousUser author_pk = True"
| "user_differs (AuthUser u) author_pk = (user_pk u \<noteq> author_pk)"

definition construct_instance :: "post_cleaned \<Rightarrow> Post \<Rightarrow> Post" where
  "construct_instance c post =
     post\<lparr>post_text := c_text c, post_group := c_group c, post_image := c_image c,
          post_author := (case c_author c of None \<Rightarrow> post_author post | Some a \<Rightarrow> a)\<rparr>"

definition Post_update :: "db \<Rightarrow> Post \<Rightarrow> db" where
  "Post_update s post =
     s\<lparr>posts := map (\<lambda>p. if post_pk p = post_pk post then post else p) (posts s)\<rparr>"

text \<open>\<open>post_edit\<close> has no \<open>login_required\<close>: the comparison of the users is its guard.\<close>

definition post_edit :: "post_clean \<Rightarrow> db \<Rightarrow> request \<Rightarrow> nat \<Rightarrow> result" where
  "post_edit pc s req post_id =
     (case get_object_or_404 (posts s) (\<lambda>p. post_pk p = post_id) of
        Inl e \<Rightarrow> (s, Inl e)
      | Inr post \<Rightarrow>
          if user_differs (user req) (post_author post) then
            (s, Inr (Redirect (PostDetailUrl post_id)))
          else
            let form = PostForm pc s (or_None (POST req)) (or_None (FILES req)) (Some post)
            in case (if http_method req = ''POST'' \<and> is_valid form then cleaned_data form
                     else None) of
                 Some c \<Rightarrow>
                   (Post_update s (construct_instance c post),
                    Inr (Redirect (PostDetailUrl post_id)))
               | None \<Rightarrow>
                   (s, Inr (Render ''posts/post_create.html''
                              [(''form'', CPostForm form), (''is_edit'', CBool True),
                               (''post_id'', CNat post_id)])))"

definition Comment_insert :: "db \<Rightarrow> int \<Rightarrow> string \<Rightarrow> nat \<Rightarrow> nat \<Rightarrow> db" where
  "Comment_insert s t txt author_pk post_id =
     s\<lparr>comments := comments s @
         [\<lparr>comment_pk = fresh_pk (map comment_pk (comments s)), comment_post = post_id,
           comment_author = author_pk, comment_text = txt, comment_pub_date = t\<rparr>]\<rparr>"

definition add_comment_view :: "comment_clean \<Rightarrow> db \<Rightarrow> request \<Rightarrow> nat \<Rightarrow> result" where
  "add_comment_view cc s req post_id =
     (case get_object_or_404 (posts s) (\<lambda>p. post_pk p = post_id) of
        Inl e \<Rightarrow> (s, Inl e)
      | Inr post \<Rightarrow>
          let form = CommentForm cc s (or_None (POST req))
          in case (if is_valid form then cleaned_data form else None) of
               Some txt \<Rightarrow>
                 (case user req of
                    AnonymousUser \<Rightarrow> (s, Inl ValueError)
                  | AuthUser u \<Rightarrow>
                      (Comment_insert s (now req) txt (user_pk u) (post_pk post),
                       Inr (Redirect (PostDetailUrl post_id))))
             | None \<Rightarrow> (s, Inr (Redirect (PostDetailUrl post_id))))"

definition add_comment :: "comment_clean \<Rightarrow> db \<Rightarrow> request \<Rightarrow> nat \<Rightarrow> result" where
  "add_comment cc s req post_id =
     login_required (\<lambda>s req. add_comment_view cc s req post_id) s req"

definition follow_index_view :: "(string \<Rightarrow> int option) \<Rightarrow> db \<Rightarrow> request \<Rightarrow> result" where
  "follow_index_view to_int s req =
     (case user req of
        AnonymousUser \<Rightarrow> (s, Inl TypeError)
      | AuthUser u \<Rightarrow>
          (case get_paginator to_int req (Post_objects_filter_following s u) of
             Inl e \<Rightarrow> (s, Inl e)
           | Inr page_obj \<Rightarrow>
               (s, Inr (Render ''posts/follow.html'' [(''page_obj'', CPage page_obj)]))))"

definition follow_index :: "(string \<Rightarrow> int option) \<Rightarrow> db \<Rightarrow> request \<Rightarrow> result" where
  "follow_index to_int = login_required (follow_index_view to_int)"

definition profile_follow_view :: "db \<Rightarrow> request \<Rightarrow> string \<Rightarrow> result" where
  "profile_follow_view s req username_arg =
     (case get_object_or_404 (users s) (\<lambda>u. username u = username_arg) of
        Inl e \<Rightarrow> (s, Inl e)
      | Inr author \<Rightarrow>
          (case user req of
             AnonymousUser \<Rightarrow> (s, Inl TypeError)
           | AuthUser u \<Rightarrow>
               let follow = (Follow_objects_filter s (user_pk u) (user_pk author) \<noteq> [])
               in if username u \<noteq> username_arg \<and> \<not> follow then
                    (case Follow_objects_create s (user_pk u) (user_pk author) of
                       Inl e \<Rightarrow> (s, Inl e)
                     | Inr s' \<Rightarrow> (s', Inr (Redirect (ProfileUrl username_arg))))
                  else (s, Inr (Redirect (ProfileUrl username_arg)))))"

definition profile_follow :: "db \<Rightarrow> request \<Rightarrow> string \<Rightarrow> result" where
  "profile_follow s req username_arg =
     login_required (\<lambda>s req. profile_follow_view s req username_arg) s req"

definition profile_unfollow_view :: "db \<Rightarrow> request \<Rightarrow> string \<Rightarrow> result" where
  "profile_unfollow_view s req username_arg =
     (case get_object_or_404 (users s) (\<lambda>u. username u = username_arg) of
        Inl e \<Rightarrow> (s, Inl e)
      | Inr author \<Rightarrow>
          (case user req of
             AnonymousUser \<Rightarrow> (s, Inl TypeError)
           | AuthUser u \<Rightarrow>
               (Follow_delete s (user_pk u) (user_pk author),
                Inr (Redirect (ProfileUrl username_arg)))))"

definition profile_unfollow :: "db \<Rightarrow> request \<Rightarrow> string \<Rightarrow> result" where
  "profile_unfollow s req username_arg =
     login_required (\<lambda>s req. profile_unfollow_view s req username_arg) s req"


section \<open>Notions used to state the properties\<close>

text \<open>The number of pages of a collection with ten posts to the page: at least one.\<close>

definition last_page :: "'a list \<Rightarrow> int" where
  "last_page xs = - ((- max 1 (int (length xs))) div 10)"

text \<open>The integer that the \<open>page\<close> parameter of a request names, if it names one.\<close>

definition requested_page :: "(string \<Rightarrow> int option) \<Rightarrow> request \<Rightarrow> int option" where
  "requested_page to_int req =
     py_int to_int (case qd_get (GET req) ''page'' of None \<Rightarrow> PyNone | Some v \<Rightarrow> PyStr v)"

text \<open>The spec's words: an out-of-range page clamps to the nearest valid page.\<close>

definition nearest_valid_page :: "'a list \<Rightarrow> int \<Rightarrow> int" where
  "nearest_valid_page xs n = max 1 (min (last_page xs) n)"

text \<open>The page that a response shows: the \<open>page_obj\<close> of the context of a rendered page.\<close>

definition page_obj_of :: "result \<Rightarrow> Post page option" where
  "page_obj_of r =
     (case snd r of
        Inr (Render t c) \<Rightarrow>
          (case map_of c ''page_obj'' of Some (CPage pg) \<Rightarrow> Some pg | _ \<Rightarrow> None)
      | _ \<Rightarrow> None)"

text \<open>
  The invariant of the page cache: it holds only pages that the index view rendered, from
  some earlier state of the tables.
\<close>

definition cache_ok :: "(string \<Rightarrow> int option) \<Rightarrow> db \<Rightarrow> bool" where
  "cache_ok to_int s =
     (\<forall>e \<in> set (cache s). \<exists>s0 req0. index_view to_int s0 req0 = (s0, Inr (snd (snd e))))"

text \<open>Newest first: no post is older than the one listed after it.\<close>

definition newest_first :: "Post list \<Rightarrow> bool" where
  "newest_first ps = sorted_wrt (\<lambda>a b. pub_date b \<le> pub_date a) ps"

text \<open>\<open>Follow.Meta.unique_together\<close>: no two follow rows relate the same pair.\<close>

definition unique_together :: "db \<Rightarrow> bool" where
  "unique_together s = distinct (map (\<lambda>f. (follow_user f, follow_author f)) (follows s))"

text \<open>The follow rows from a user to an author, by their primary keys.\<close>

definition follow_rows :: "db \<Rightarrow> User \<Rightarrow> User \<Rightarrow> Follow list" where
  "follow_rows s u a =
     filter (\<lambda>f. follow_user f = user_pk u \<and> follow_author f = user_pk a) (follows s)"

text \<open>
  The answer that \<open>cache_page\<close> takes from the cache for a request, if it takes one: the
  entry of a \<open>GET\<close> or \<open>HEAD\<close> request that has not expired.
\<close>

definition cache_lookup :: "string \<Rightarrow> db \<Rightarrow> request \<Rightarrow> response option" where
  "cache_lookup key_prefix s req =
     (if http_method req \<noteq> ''GET'' \<and> http_method req \<noteq> ''HEAD'' then None
      else case cache_get s (now req) (key_prefix, ''GET'', path req, GET req) of
             Some r \<Rightarrow> Some r
           | None \<Rightarrow>
               if http_method req = ''HEAD''
               then cache_get s (now req) (key_prefix, ''HEAD'', path req, GET req)
               else None)"

text \<open>
  The size of a page \<open>pg\<close> made of a collection \<open>xs\<close> for a request that names the page
  \<open>rp\<close>: at most 10 posts; of 13 posts, page 1 (also when no page is named) is the first
  10 posts and page 2 the remaining 3.
\<close>

definition page_size_ok :: "int option \<Rightarrow> Post list \<Rightarrow> Post page \<Rightarrow> bool" where
  "page_size_ok rp xs pg =
     (length (page_object_list pg) \<le> 10
      \<and> (length xs = 13 \<longrightarrow>
           (rp = None \<or> rp = Some 1 \<longrightarrow>
              page_number pg = 1 \<and> page_object_list pg = take 10 xs
              \<and> length (page_object_list pg) = 10)
         \<and> (rp = Some 2 \<longrightarrow>
              page_number pg = 2 \<and> page_object_list pg = drop 10 xs
              \<and> length (page_object_list pg) = 3)))"

text \<open>The position of the first occurrence of an element, and the number of the page it is on.\<close>

fun index_of :: "'a list \<Rightarrow> 'a \<Rightarrow> nat" where
  "index_of [] x = 0"
| "index_of (y # ys) x = (if y = x then 0 else Suc (index_of ys x))"

definition page_holding :: "'a list \<Rightarrow> 'a \<Rightarrow> int" where
  "page_holding xs x = int (index_of xs x div 10) + 1"

section \<open>Example data\<close>

definition example_post :: "nat \<Rightarrow> Post" where
  "example_post i =
     \<lparr>post_pk = i + 1, post_text = ''text'', pub_date = int i, post_author = 1,
      post_group = None, post_image = []\<rparr>"

definition thirteen_posts :: "Post list" where
  "thirteen_posts = map example_post [0..<13]"

definition example_request :: "actor \<Rightarrow> string \<Rightarrow> querydict \<Rightarrow> querydict \<Rightarrow> request" where
  "example_request u m g p =
     \<lparr>user = u, http_method = m, path = ''/'', GET = g, POST = p, FILES = [], now = 100\<rparr>"

definition alice :: User where
  "alice = \<lparr>user_pk = 1, username = ''alice''\<rparr>"

definition bob :: User where
  "bob = \<lparr>user_pk = 2, username = ''bob''\<rparr>"

definition example_db :: db where
  "example_db =
     \<lparr>users = [alice, bob], groups = [], posts = thirteen_posts, comments = [],
      follows = [], cache = []\<rparr>"

text \<open>The example state after a request for page 2 of the index, which the cache keeps.\<close>

definition cached_db :: db where
  "cached_db = fst (index dec_int example_db
                      (example_request AnonymousUser ''GET'' [(''page'', ''2'')] []))"

text \<open>
  Example validations: the text is required.  The post form also reads an \<open>author\<close>
  from the submitted data, as a form with an author field would.
\<close>

definition example_post_clean :: post_clean where
  "example_post_clean s instance data files =
     (case qd_get data ''text'' of
        None \<Rightarrow> ([''text: this field is required''],
                  \<lparr>c_text = [], c_group = None, c_image = [], c_author = None\<rparr>)
      | Some t \<Rightarrow>
          (if t = [] then [''text: this field is required''] else [],
           \<lparr>c_text = t, c_group = None, c_image = [],
            c_author = (case qd_get data ''author'' of
                          None \<Rightarrow> None
                        | Some v \<Rightarrow> map_option nat (dec_int v))\<rparr>))"

definition example_comment_clean :: comment_clean where
  "example_comment_clean s data =
     (case qd_get data ''text'' of
        None \<Rightarrow> ([''text: this field is required''], [])
      | Some t \<Rightarrow> (if t = [] then [''text: this field is required''] else [], t))"

definition carol :: User where
  "carol = \<lparr>user_pk = 3, username = ''carol''\<rparr>"

text \<open>A state in which bob follows alice, who wrote the three posts; carol wrote one.\<close>

definition small_db :: db where
  "small_db =
     \<lparr>users = [alice, bob, carol], groups = [],
      posts = [example_post 0, example_post 1, example_post 2,
               \<lparr>post_pk = 9, post_text = ''by carol'', pub_date = 1, post_author = 3,
                post_group = None, post_image = []\<rparr>],
      comments = [],
      follows = [\<lparr>follow_pk = 1, follow_user = 2, follow_author = 1\<rparr>], cache = []\<rparr>"

text \<open>
  A state for the feeds: alice wrote the thirteen example posts in the group of the cats,
  and bob follows alice.
\<close>

definition cats :: Group where
  "cats = \<lparr>group_pk = 1, title = ''Cats'', slug = ''cats'', description = ''About cats''\<rparr>"

definition feed_db :: db where
  "feed_db =
     \<lparr>users = [alice, bob], groups = [cats],
      posts = map (\<lambda>p. p\<lparr>post_group := Some 1\<rparr>) thirteen_posts, comments = [],
      follows = [\<lparr>follow_pk = 1, follow_user = 2, follow_author = 1\<rparr>], cache = []\<rparr>"

text \<open>
  A state with a page of the index in the cache that is out of date: twelve posts, then a
  request for page 2 of the index, which the cache keeps, then a thirteenth post by bob.
\<close>

definition twelve_db :: db where
  "twelve_db = example_db\<lparr>posts := take 12 thirteen_posts\<rparr>"

definition stale_db :: db where
  "stale_db =
     fst (post_create example_post_clean
            (fst (index dec_int twelve_db
                    (example_request AnonymousUser ''GET'' [(''page'', ''2'')] [])))
            (example_request (AuthUser bob) ''POST'' [] [(''text'', ''the thirteenth post'')]))"

section \<open>Properties: lookups\<close>

lemma filter_key_distinct:
  "distinct (map f xs) \<Longrightarrow> x \<in> set xs \<Longrightarrow> filter (\<lambda>y. f y = f x) xs = [x]"
proof (induction xs)
  case Nil
  then show ?case by simp
next
  case (Cons y ys)
  show ?case
  proof (cases "y = x")
    case True
    then have "f x \<notin> f ` set ys" using Cons.prems(1) by simp
    then have "filter (\<lambda>y. f y = f x) ys = []"
      unfolding filter_empty_conv by (metis imageI)
    then show ?thesis using True by simp
  next
    case False
    then have "x \<in> set ys" using Cons.prems(2) by simp
    moreover have "f y \<noteq> f x" using Cons.prems(1) calculation by auto
    ultimately show ?thesis using Cons by simp
  qed
qed

lemma filter_key_le1:
  "distinct (map f xs) \<Longrightarrow> length (filter (\<lambda>y. f y = k) xs) \<le> 1"
proof (cases "k \<in> f ` set xs")
  case True
  assume d: "distinct (map f xs)"
  from True obtain x where "x \<in> set xs" "f x = k" by auto
  then show ?thesis using filter_key_distinct[OF d, of x] by auto
next
  case False
  then have "filter (\<lambda>y. f y = k) xs = []" by (auto simp: filter_empty_conv)
  then show ?thesis by simp
qed

lemma get_user_by_name:
  "distinct (map username (users s)) \<Longrightarrow> a \<in> set (users s) \<Longrightarrow>
     get_object_or_404 (users s) (\<lambda>x. username x = username a) = Inr a"
  by (simp add: get_object_or_404_def filter_key_distinct)

lemma get_post_by_pk:
  "distinct (map post_pk (posts s)) \<Longrightarrow> p \<in> set (posts s) \<Longrightarrow>
     get_object_or_404 (posts s) (\<lambda>q. post_pk q = post_pk p) = Inr p"
  by (simp add: get_object_or_404_def filter_key_distinct)

lemma set_order_by: "set (order_by_pub_date_desc ps) = set ps"
  by (simp add: order_by_pub_date_desc_def)

lemma get_group_by_slug:
  "distinct (map slug (groups s)) \<Longrightarrow> g \<in> set (groups s) \<Longrightarrow>
     get_object_or_404 (groups s) (\<lambda>x. slug x = slug g) = Inr g"
  by (simp add: get_object_or_404_def filter_key_distinct)

section \<open>Properties: pagination\<close>

lemma num_pages_Paginator:
  "num_pages (Paginator xs NUMBER_OF_POSTS) = Inr (last_page xs)"
  by (simp add: num_pages_def Paginator_def NUMBER_OF_POSTS_def count_def Let_def last_page_def)

lemma ceil_div_bounds: "10 * (- ((- m) div 10) - 1) < (m::int) \<and> m \<le> 10 * (- ((- m) div 10))"
  by presburger

lemma last_page_bounds:
  "10 * (last_page xs - 1) < max 1 (int (length xs)) \<and> max 1 (int (length xs)) \<le> 10 * last_page xs"
  unfolding last_page_def by (rule ceil_div_bounds)

lemma last_page_ge1: "1 \<le> last_page xs"
  using last_page_bounds[of xs] by linarith

lemma validate_number_Paginator:
  "validate_number to_int (Paginator xs NUMBER_OF_POSTS) v =
     (case py_int to_int v of None \<Rightarrow> Inl PageNotAnInteger
      | Some n \<Rightarrow> if n < 1 \<or> last_page xs < n then Inl EmptyPage else Inr n)"
  using last_page_ge1[of xs]
  by (auto simp: validate_number_def num_pages_Paginator split: option.splits)

lemma slice_full:
  assumes "0 \<le> b" "int (length xs) \<le> b + 10"
  shows "slice xs b (int (length xs)) = take 10 (drop (nat b) xs)"
proof -
  have "length (drop (nat b) xs) \<le> 10" using assms by simp
  moreover have "length (drop (nat b) xs) \<le> nat (int (length xs) - b)" using assms by simp
  ultimately show ?thesis by (simp add: slice_def)
qed

lemma slice_ten: "slice xs b (b + 10) = take 10 (drop (nat b) xs)"
  by (simp add: slice_def)

lemma page_Paginator:
  assumes "1 \<le> n" "n \<le> last_page xs"
  shows "page to_int (Paginator xs NUMBER_OF_POSTS) (PyInt n) =
     Inr \<lparr>page_object_list = take 10 (drop (nat ((n - 1) * 10)) xs), page_number = n,
          page_paginator = Paginator xs NUMBER_OF_POSTS\<rparr>"
proof -
  define b where "b = (n - 1) * 10"
  have v: "validate_number to_int (Paginator xs NUMBER_OF_POSTS) (PyInt n) = Inr n"
    using assms by (simp add: validate_number_Paginator py_int_def)
  have b: "0 \<le> b" using assms by (simp add: b_def)
  have f: "per_page (Paginator xs NUMBER_OF_POSTS) = 10" "orphans (Paginator xs NUMBER_OF_POSTS) = 0"
    "count (Paginator xs NUMBER_OF_POSTS) = int (length xs)"
    "object_list (Paginator xs NUMBER_OF_POSTS) = xs"
    by (simp_all add: Paginator_def NUMBER_OF_POSTS_def count_def)
  have sl: "slice xs b (if b + 10 + 0 \<ge> int (length xs) then int (length xs) else b + 10)
          = take 10 (drop (nat b) xs)"
    using slice_full[OF b, of xs] slice_ten[of xs b] by simp
  have pg: "page to_int (Paginator xs NUMBER_OF_POSTS) (PyInt n) =
     Inr \<lparr>page_object_list =
            slice xs b (if b + 10 + 0 \<ge> int (length xs) then int (length xs) else b + 10),
          page_number = n, page_paginator = Paginator xs NUMBER_OF_POSTS\<rparr>"
    unfolding page_def v Let_def f b_def by (simp only: sum.case)
  show ?thesis unfolding pg sl unfolding b_def by (rule refl)
qed

lemma get_page_Paginator:
  "get_page to_int (Paginator xs NUMBER_OF_POSTS) v =
     page to_int (Paginator xs NUMBER_OF_POSTS)
       (PyInt (case py_int to_int v of None \<Rightarrow> 1
               | Some n \<Rightarrow> if n < 1 \<or> last_page xs < n then last_page xs else n))"
  by (simp add: get_page_def validate_number_Paginator num_pages_Paginator split: option.splits)

lemma get_paginator_eq:
  "get_paginator to_int req xs =
     Inr \<lparr>page_object_list =
            take 10 (drop (nat (((case requested_page to_int req of None \<Rightarrow> 1
               | Some n \<Rightarrow> if n < 1 \<or> last_page xs < n then last_page xs else n) - 1) * 10)) xs),
          page_number = (case requested_page to_int req of None \<Rightarrow> 1
               | Some n \<Rightarrow> if n < 1 \<or> last_page xs < n then last_page xs else n),
          page_paginator = Paginator xs NUMBER_OF_POSTS\<rparr>"
proof -
  define k where "k = (case requested_page to_int req of None \<Rightarrow> 1
               | Some n \<Rightarrow> if n < 1 \<or> last_page xs < n then last_page xs else n)"
  have k: "1 \<le> k" "k \<le> last_page xs"
    using last_page_ge1[of xs] by (auto simp: k_def split: option.splits)
  have "get_paginator to_int req xs = page to_int (Paginator xs NUMBER_OF_POSTS) (PyInt k)"
    by (simp add: get_paginator_def get_page_Paginator k_def requested_page_def Let_def)
  then show ?thesis
    using page_Paginator[OF k, of to_int] by (simp add: k_def)
qed

lemma last_page_13: "length xs = 13 \<Longrightarrow> last_page xs = 2"
  by (simp add: last_page_def)

lemma newest_first_order: "newest_first (order_by_pub_date_desc ps)"
proof -
  have "sorted (map (\<lambda>p. - pub_date p) (sort_key (\<lambda>p. - pub_date p) ps))"
    by (rule sorted_sort_key)
  then show ?thesis
    by (simp add: newest_first_def order_by_pub_date_desc_def sorted_map sorted_wrt_iff_nth_less)
qed

lemma newest_first_take_drop: "newest_first ps \<Longrightarrow> newest_first (take n (drop m ps))"
  unfolding newest_first_def by (intro sorted_wrt_take sorted_wrt_drop)

lemma get_paginator_length:
  "get_paginator to_int req xs = Inr pg \<Longrightarrow> length (page_object_list pg) \<le> 10"
  by (auto simp: get_paginator_eq)

lemma get_paginator_newest_first:
  "newest_first xs \<Longrightarrow> get_paginator to_int req xs = Inr pg \<Longrightarrow>
     newest_first (page_object_list pg)"
  by (auto simp: get_paginator_eq newest_first_take_drop)

lemma page_obj_of_index_view:
  "page_obj_of (index_view to_int s req) = Some pg \<Longrightarrow>
     get_paginator to_int req (Post_objects_all s) = Inr pg"
  by (auto simp: page_obj_of_def index_view_def split: sum.splits)

lemma page_obj_of_group_posts:
  "page_obj_of (group_posts to_int s req sl) = Some pg \<Longrightarrow>
     \<exists>g. get_object_or_404 (groups s) (\<lambda>g. slug g = sl) = Inr g
        \<and> get_paginator to_int req (group_posts_all s g) = Inr pg"
  by (auto simp: page_obj_of_def group_posts_def split: sum.splits)

lemma page_obj_of_profile:
  "page_obj_of (profile to_int s req un) = Some pg \<Longrightarrow>
     \<exists>a. get_object_or_404 (users s) (\<lambda>u. username u = un) = Inr a
        \<and> get_paginator to_int req (author_posts_all s a) = Inr pg"
  by (auto simp: page_obj_of_def profile_def Let_def split: sum.splits)

lemma page_obj_of_follow_index:
  "page_obj_of (follow_index to_int s req) = Some pg \<Longrightarrow>
     \<exists>u. user req = AuthUser u
        \<and> get_paginator to_int req (Post_objects_filter_following s u) = Inr pg"
  by (auto simp: page_obj_of_def follow_index_def follow_index_view_def login_required_def
           split: sum.splits actor.splits if_splits)

lemma cache_get_in: "cache_get s t k = Some r \<Longrightarrow> \<exists>e \<in> set (cache s). snd (snd e) = r"
  by (force simp: cache_get_def split: option.splits if_splits dest!: map_of_SomeD)

lemma cache_page_cases:
  "cache_page tmo pre view s req = view s req
   \<or> (\<exists>e \<in> set (cache s). cache_page tmo pre view s req = (s, Inr (snd (snd e))))
   \<or> (\<exists>s' t c k ex. view s req = (s', Inr (Render t c))
         \<and> cache_page tmo pre view s req = (cache_set s' k ex (Render t c), Inr (Render t c)))"
proof (cases "http_method req \<noteq> ''GET'' \<and> http_method req \<noteq> ''HEAD''")
  case True
  then show ?thesis by (simp add: cache_page_def)
next
  case False
  define hit where "hit = (case cache_get s (now req) (pre, ''GET'', path req, GET req) of
                     Some r \<Rightarrow> Some r
                   | None \<Rightarrow>
                       if http_method req = ''HEAD''
                       then cache_get s (now req) (pre, ''HEAD'', path req, GET req)
                       else None)"
  have cp: "cache_page tmo pre view s req =
     (case hit of
             Some r \<Rightarrow> (s, Inr r)
           | None \<Rightarrow>
               (case view s req of
                  (s', Inr (Render t c)) \<Rightarrow>
                    (cache_set s' (pre, http_method req, path req, GET req) (now req + tmo)
                       (Render t c),
                     Inr (Render t c))
                | (s', r) \<Rightarrow> (s', r)))"
    using False by (auto simp add: cache_page_def get_full_path_def hit_def)
  show ?thesis
  proof (cases hit)
    case (Some r)
    then have "\<exists>e \<in> set (cache s). snd (snd e) = r"
      by (auto simp: hit_def split: option.splits if_splits dest: cache_get_in)
    then show ?thesis using Some cp by auto
  next
    case None
    obtain s' r where v: "view s req = (s', r)" by (cases "view s req")
    show ?thesis
    proof (cases r)
      case (Inl e)
      then show ?thesis using None cp v by simp
    next
      case (Inr resp)
      show ?thesis
      proof (cases resp)
        case (Render t c)
        have "view s req = (s', Inr (Render t c)) \<and>
              cache_page tmo pre view s req =
                (cache_set s' (pre, http_method req, path req, GET req) (now req + tmo) (Render t c),
                 Inr (Render t c))"
          using None cp v Inr Render by simp
        then show ?thesis by blast
      next
        case (Redirect l)
        then show ?thesis using None cp v Inr by simp
      qed
    qed
  qed
qed

lemma index_view_state: "fst (index_view to_int s req) = s"
  by (simp add: index_view_def split: sum.splits)

lemma page_obj_of_index:
  assumes "cache_ok to_int s" "page_obj_of (index to_int s req) = Some pg"
  shows "\<exists>s0 req0. get_paginator to_int req0 (Post_objects_all s0) = Inr pg"
proof -
  have "page_obj_of (index to_int s req) = page_obj_of (index_view to_int s req)
      \<or> (\<exists>e \<in> set (cache s). index to_int s req = (s, Inr (snd (snd e))))"
    using cache_page_cases[of 20 "''index_page''" "index_view to_int" s req]
    by (auto simp: index_def page_obj_of_def)
  then show ?thesis
  proof
    assume "page_obj_of (index to_int s req) = page_obj_of (index_view to_int s req)"
    then show ?thesis using assms(2) page_obj_of_index_view by metis
  next
    assume "\<exists>e \<in> set (cache s). index to_int s req = (s, Inr (snd (snd e)))"
    then obtain e where e: "e \<in> set (cache s)" "index to_int s req = (s, Inr (snd (snd e)))"
      by blast
    from assms(1) e(1) obtain s0 req0 where
      v: "index_view to_int s0 req0 = (s0, Inr (snd (snd e)))"
      unfolding cache_ok_def by blast
    have "page_obj_of (index_view to_int s0 req0) = Some pg"
      using assms(2) e(2) v by (simp add: page_obj_of_def)
    then show ?thesis using page_obj_of_index_view by blast
  qed
qed

lemma cache_ok_index:
  assumes "cache_ok to_int s"
  shows "cache_ok to_int (fst (index to_int s req))"
proof -
  have vs: "\<And>s' r. index_view to_int s req = (s', r) \<Longrightarrow> s' = s"
    using index_view_state[of to_int s req] by simp
  from cache_page_cases[of 20 "''index_page''" "index_view to_int" s req]
  show ?thesis
  proof (elim disjE bexE exE conjE)
    assume "cache_page 20 ''index_page'' (index_view to_int) s req = index_view to_int s req"
    then show ?thesis using assms by (simp add: index_def index_view_state)
  next
    fix e assume "cache_page 20 ''index_page'' (index_view to_int) s req = (s, Inr (snd (snd e)))"
    then show ?thesis using assms by (simp add: index_def)
  next
    fix s' t c k ex
    assume v: "index_view to_int s req = (s', Inr (Render t c))"
      and c: "cache_page 20 ''index_page'' (index_view to_int) s req =
                (cache_set s' k ex (Render t c), Inr (Render t c))"
    have "s' = s" using vs v by blast
    then show ?thesis using assms v c
      by (auto simp: index_def cache_ok_def cache_set_def)
  qed
qed

lemma cache_ok_empty: "cache s = [] \<Longrightarrow> cache_ok to_int s"
  by (simp add: cache_ok_def)

text \<open>Every view keeps the invariant of the cache: only the index view writes to it.\<close>

lemma cache_ok_cong: "cache s' = cache s \<Longrightarrow> cache_ok to_int s \<Longrightarrow> cache_ok to_int s'"
  by (simp add: cache_ok_def)

lemma cache_unchanged:
  "cache (fst (group_posts to_int s req sl)) = cache s"
  "cache (fst (profile to_int s req un)) = cache s"
  "cache (fst (post_detail cc s req post_id)) = cache s"
  "cache (fst (post_create pc s req)) = cache s"
  "cache (fst (post_edit pc s req post_id)) = cache s"
  "cache (fst (add_comment cc s req post_id)) = cache s"
  "cache (fst (follow_index to_int s req)) = cache s"
  "cache (fst (profile_follow s req un)) = cache s"
  "cache (fst (profile_unfollow s req un)) = cache s"
  by (auto simp: group_posts_def profile_def post_detail_def post_create_def post_edit_def
      add_comment_def follow_index_def profile_follow_def profile_unfollow_def
      login_required_def post_create_view_def add_comment_view_def follow_index_view_def
      profile_follow_view_def profile_unfollow_view_def Let_def Post_insert_def Post_update_def
      Comment_insert_def Follow_objects_create_def Follow_delete_def
      split: sum.splits option.splits actor.splits if_splits)

lemma cache_ok_preserved:
  assumes "cache_ok to_int s"
    and "s' \<in> {fst (index to_int s req), fst (group_posts to_int s req sl),
               fst (profile to_int s req un), fst (post_detail cc s req post_id),
               fst (post_create pc s req), fst (post_edit pc s req post_id),
               fst (add_comment cc s req post_id), fst (follow_index to_int s req),
               fst (profile_follow s req un), fst (profile_unfollow s req un)}"
  shows "cache_ok to_int s'"
  using assms(2)
proof (elim insertE emptyE)
  assume "s' = fst (index to_int s req)"
  then show ?thesis using cache_ok_index[OF assms(1)] by simp
qed (simp_all add: cache_ok_cong[OF _ assms(1)] cache_unchanged)

lemma newest_first_nth:
  "newest_first ps \<Longrightarrow> Suc i < length ps \<Longrightarrow> pub_date (ps ! Suc i) \<le> pub_date (ps ! i)"
  by (simp add: newest_first_def sorted_wrt_iff_nth_less)

lemma page_nonempty:
  assumes "xs \<noteq> []" "1 \<le> k" "k \<le> last_page xs"
  shows "take 10 (drop (nat ((k - 1) * 10)) xs) \<noteq> []"
proof -
  have "10 * (last_page xs - 1) < max 1 (int (length xs))"
    using last_page_bounds[of xs] by simp
  moreover have "max 1 (int (length xs)) = int (length xs)"
    using assms(1) by (cases xs) simp_all
  moreover have "(k - 1) * 10 \<le> 10 * (last_page xs - 1)" using assms(3) by simp
  ultimately have "(k - 1) * 10 < int (length xs)" by linarith
  moreover have "0 \<le> (k - 1) * 10" using assms(2) by simp
  ultimately have "nat ((k - 1) * 10) < length xs" by (simp only: nat_less_iff)
  then show ?thesis by simp
qed

lemma cache_page_hit:
  "cache_lookup pre s req = Some r \<Longrightarrow> cache_page tmo pre view s req = (s, Inr r)"
  by (auto simp: cache_lookup_def cache_page_def get_full_path_def Let_def
      split: if_splits option.splits)

lemma cache_page_miss:
  "cache_lookup pre s req = None \<Longrightarrow> snd (cache_page tmo pre view s req) = snd (view s req)"
  by (auto simp: cache_lookup_def cache_page_def get_full_path_def Let_def
      split: if_splits option.splits prod.splits sum.splits response.splits)

lemma get_paginator_size:
  "\<exists>pg. get_paginator to_int req xs = Inr pg
      \<and> page_size_ok (requested_page to_int req) xs pg"
  by (auto simp: get_paginator_eq last_page_13 page_size_ok_def)

lemma index_of_nth: "x \<in> set xs \<Longrightarrow> index_of xs x < length xs \<and> xs ! index_of xs x = x"
  by (induction xs) auto

lemma nth_in_page:
  assumes "i < length xs"
  shows "xs ! i \<in> set (take 10 (drop (10 * (i div 10)) xs))"
proof -
  have a: "10 * (i div 10) + i mod 10 = i" by simp
  have b: "i mod 10 < 10" by simp
  have "i mod 10 < length xs - 10 * (i div 10)" using assms a by linarith
  then have c: "i mod 10 < length (drop (10 * (i div 10)) xs)" by simp
  have "take 10 (drop (10 * (i div 10)) xs) ! (i mod 10) = xs ! i"
    using b c assms by (simp add: a)
  moreover have "i mod 10 < length (take 10 (drop (10 * (i div 10)) xs))" using b c by simp
  ultimately show ?thesis by (metis nth_mem)
qed

lemma page_holding_bounds:
  assumes "x \<in> set xs"
  shows "1 \<le> page_holding xs x \<and> page_holding xs x \<le> last_page xs"
proof -
  have i: "index_of xs x < length xs" using index_of_nth[OF assms] by simp
  have "max 1 (int (length xs)) \<le> 10 * last_page xs" using last_page_bounds[of xs] by simp
  then have "int (length xs) \<le> 10 * last_page xs" by simp
  then have "int (index_of xs x) < 10 * last_page xs" using i by linarith
  then have "int (index_of xs x) div 10 < last_page xs" by linarith
  then show ?thesis by (simp add: page_holding_def zdiv_int)
qed

lemma page_holding_mem:
  assumes "x \<in> set xs"
  shows "x \<in> set (take 10 (drop (nat ((page_holding xs x - 1) * 10)) xs))"
proof -
  have i: "index_of xs x < length xs" "xs ! index_of xs x = x"
    using index_of_nth[OF assms] by simp_all
  have "nat ((page_holding xs x - 1) * 10) = 10 * (index_of xs x div 10)"
    by (simp add: page_holding_def nat_mult_distrib)
  then show ?thesis using nth_in_page[OF i(1)] i(2) by simp
qed

lemma ten_bound: "(m::int) \<le> 10 \<Longrightarrow> 10 * (l - 1) < m \<Longrightarrow> 1 \<le> l \<Longrightarrow> l = 1"
  by presburger

lemma last_page_small:
  assumes "length xs \<le> 10"
  shows "last_page xs = 1"
proof -
  have "max 1 (int (length xs)) \<le> 10" using assms by simp
  moreover have "10 * (last_page xs - 1) < max 1 (int (length xs))"
    using last_page_bounds[of xs] by (rule conjunct1)
  ultimately show ?thesis using last_page_ge1[of xs] by (rule ten_bound)
qed

lemma index_view_renders:
  "\<exists>pg. index_view to_int s req =
            (s, Inr (Render ''posts/index.html'' [(''page_obj'', CPage pg)]))
      \<and> get_paginator to_int req (Post_objects_all s) = Inr pg
      \<and> page_size_ok (requested_page to_int req) (Post_objects_all s) pg"
  using get_paginator_size[of to_int req "Post_objects_all s"]
  by (auto simp: index_view_def)

lemma group_posts_renders:
  assumes "g \<in> set (groups s)" "distinct (map slug (groups s))"
  shows "\<exists>pg. group_posts to_int s req (slug g) =
            (s, Inr (Render ''posts/group_list.html''
                       [(''group'', CGroup g), (''page_obj'', CPage pg)]))
      \<and> get_paginator to_int req (group_posts_all s g) = Inr pg
      \<and> page_size_ok (requested_page to_int req) (group_posts_all s g) pg"
  using get_paginator_size[of to_int req "group_posts_all s g"]
    get_group_by_slug[OF assms(2,1)]
  by (auto simp: group_posts_def)

lemma profile_renders:
  assumes "a \<in> set (users s)" "distinct (map username (users s))"
  shows "\<exists>pg following. profile to_int s req (username a) =
            (s, Inr (Render ''posts/profile.html''
                       [(''author'', CUser a), (''page_obj'', CPage pg),
                        (''following'', CBool following)]))
      \<and> get_paginator to_int req (author_posts_all s a) = Inr pg
      \<and> page_size_ok (requested_page to_int req) (author_posts_all s a) pg"
  using get_paginator_size[of to_int req "author_posts_all s a"]
    get_user_by_name[OF assms(2,1)]
  by (auto simp: profile_def Let_def)

lemma follow_index_renders:
  assumes "user req = AuthUser u"
  shows "\<exists>pg. follow_index to_int s req =
            (s, Inr (Render ''posts/follow.html'' [(''page_obj'', CPage pg)]))
      \<and> get_paginator to_int req (Post_objects_filter_following s u) = Inr pg
      \<and> page_size_ok (requested_page to_int req) (Post_objects_filter_following s u) pg"
  using get_paginator_size[of to_int req "Post_objects_filter_following s u"] assms
  by (auto simp: follow_index_def login_required_def follow_index_view_def)

lemma following_iff:
  "p \<in> set (Post_objects_filter_following s u) \<longleftrightarrow>
      p \<in> set (posts s) \<and> (\<exists>f \<in> set (follows s).
         follow_user f = user_pk u \<and> follow_author f = post_author p)"
  by (auto simp: Post_objects_filter_following_def set_order_by)

subsection \<open>Evaluations on the example data\<close>

lemma ex_len13: "length thirteen_posts = 13"
  by (simp add: thirteen_posts_def)

lemma ex_req_page2:
  "requested_page dec_int (example_request AnonymousUser ''GET'' [(''page'', ''2'')] []) = Some 2"
  by code_simp

lemma ex_req_page0:
  "requested_page dec_int (example_request AnonymousUser ''GET'' [(''page'', ''0'')] []) = Some 0"
  by code_simp

lemma ex_last_page: "last_page thirteen_posts = 2"
  by (simp add: last_page_13 ex_len13)

lemma ex_index_page:
  "page_obj_of (index dec_int example_db
      (example_request AnonymousUser ''GET'' [(''page'', ''2'')] [])) \<noteq> None"
  by code_simp

lemma ex_index_page_len:
  "length (page_object_list (the (page_obj_of (index dec_int example_db
      (example_request AnonymousUser ''GET'' [(''page'', ''2'')] []))))) = 3"
  by code_simp

lemma ex_cached_nonempty: "cache cached_db \<noteq> []"
  by code_simp

lemma ex_cached_page:
  "page_obj_of (index dec_int cached_db
      (example_request AnonymousUser ''GET'' [(''page'', ''2'')] [])) \<noteq> None"
  by code_simp

lemma ex_cached_page_len:
  "length (page_object_list (the (page_obj_of (index dec_int cached_db
      (example_request AnonymousUser ''GET'' [(''page'', ''2'')] []))))) = 3"
  by code_simp

lemma ex_cached_hit:
  "fst (index dec_int cached_db
      (example_request AnonymousUser ''GET'' [(''page'', ''2'')] [])) = cached_db"
  by code_simp

lemma ex_cached_ok: "cache_ok dec_int cached_db"
  unfolding cached_db_def
  by (rule cache_ok_index) (simp add: cache_ok_def example_db_def)

lemma ex_feed_db:
  "cats \<in> set (groups feed_db)" "distinct (map slug (groups feed_db))"
  "alice \<in> set (users feed_db)" "distinct (map username (users feed_db))"
  "slug cats = ''cats''" "username alice = ''alice''"
  by (simp_all add: feed_db_def cats_def alice_def bob_def)

lemma ex_feed_lengths:
  "length (Post_objects_all feed_db) = 13"
  "length (group_posts_all feed_db cats) = 13"
  "length (author_posts_all feed_db alice) = 13"
  "length (Post_objects_filter_following feed_db bob) = 13"
  by code_simp+

lemma ex_bob_page2:
  "user (example_request (AuthUser bob) ''GET'' [(''page'', ''2'')] []) = AuthUser bob"
  "requested_page dec_int (example_request (AuthUser bob) ''GET'' [(''page'', ''2'')] []) = Some 2"
  "cache_lookup ''index_page'' feed_db
     (example_request (AuthUser bob) ''GET'' [(''page'', ''2'')] []) = None"
  by code_simp+

lemma ex_bob_page1:
  "user (example_request (AuthUser bob) ''GET'' [] []) = AuthUser bob"
  "requested_page dec_int (example_request (AuthUser bob) ''GET'' [] []) = None"
  by code_simp+

lemma ex_small_feed:
  "length (Post_objects_filter_following small_db bob) \<le> 10"
  "example_post 0 \<in> set (posts small_db)"
  "\<exists>f \<in> set (follows small_db).
      follow_user f = user_pk bob \<and> follow_author f = post_author (example_post 0)"
  "\<not> (\<exists>f \<in> set (follows small_db).
      follow_user f = user_pk bob \<and> follow_author f = post_author
        \<lparr>post_pk = 9, post_text = ''by carol'', pub_date = 1, post_author = 3,
          post_group = None, post_image = []\<rparr>)"
  by code_simp+

lemma ex_oldest:
  "(example_post 0)\<lparr>post_group := Some 1\<rparr> \<in> set (posts feed_db)"
  "\<exists>f \<in> set (follows feed_db).
      follow_user f = user_pk bob
    \<and> follow_author f = post_author ((example_post 0)\<lparr>post_group := Some 1\<rparr>)"
  "page_holding (Post_objects_filter_following feed_db bob)
     ((example_post 0)\<lparr>post_group := Some 1\<rparr>) = 2"
  by code_simp+

lemma ex_stale_ok: "cache_ok dec_int stale_db"
proof -
  have "cache twelve_db = []" by (simp add: twelve_db_def example_db_def)
  then have "cache_ok dec_int twelve_db" by (rule cache_ok_empty)
  then have "cache_ok dec_int (fst (index dec_int twelve_db
                    (example_request AnonymousUser ''GET'' [(''page'', ''2'')] [])))"
    by (rule cache_ok_index)
  then show ?thesis
    unfolding stale_db_def by (rule cache_ok_cong[rotated]) (rule cache_unchanged)
qed

lemma ex_stale_page:
  "page_obj_of (index dec_int stale_db
      (example_request AnonymousUser ''GET'' [(''page'', ''2'')] [])) \<noteq> None"
  "cache stale_db \<noteq> []"
  by code_simp+

subsection \<open>Page size\<close>

text \<open>
  Claim C1, as amended.  Whatever the collection of posts and the request, the pagination
  returns a page of at most 10 posts; of a collection of 13 posts, page 1 (also served
  when the request names no page) is the first 10 posts and page 2 the remaining 3.  The
  views of the posts of an existing group, of the posts of an existing author and of the
  posts of the followed authors of an authenticated user always render this page of the
  collection of their scope, in a state where the slugs of the groups and the names of
  the users are unique.  So does the view of all posts when it does not answer from its
  cache.  When it answers from its cache, the answer is the cached response, which may be
  a page of an earlier collection; in a state whose cache holds pages that this view
  rendered, it is a page of all posts of some state and has at most 10 posts.
\<close>

theorem feed_page_size:
  "(\<exists>pg. get_paginator to_int req post_list = Inr pg
      \<and> page_size_ok (requested_page to_int req) post_list pg)
   \<and> (\<exists>pg. index_view to_int s req =
            (s, Inr (Render ''posts/index.html'' [(''page_obj'', CPage pg)]))
      \<and> get_paginator to_int req (Post_objects_all s) = Inr pg
      \<and> page_size_ok (requested_page to_int req) (Post_objects_all s) pg)
   \<and> (cache_lookup ''index_page'' s req = None \<longrightarrow>
         snd (index to_int s req) = snd (index_view to_int s req))
   \<and> (\<forall>r. cache_lookup ''index_page'' s req = Some r \<longrightarrow> index to_int s req = (s, Inr r))
   \<and> (\<forall>pg. cache_ok to_int s \<longrightarrow> page_obj_of (index to_int s req) = Some pg \<longrightarrow>
          length (page_object_list pg) \<le> 10
        \<and> (\<exists>s0 req0. get_paginator to_int req0 (Post_objects_all s0) = Inr pg))
   \<and> (g \<in> set (groups s) \<and> distinct (map slug (groups s)) \<longrightarrow>
        (\<exists>pg. group_posts to_int s req (slug g) =
            (s, Inr (Render ''posts/group_list.html''
                       [(''group'', CGroup g), (''page_obj'', CPage pg)]))
          \<and> get_paginator to_int req (group_posts_all s g) = Inr pg
          \<and> page_size_ok (requested_page to_int req) (group_posts_all s g) pg))
   \<and> (a \<in> set (users s) \<and> distinct (map username (users s)) \<longrightarrow>
        (\<exists>pg following. profile to_int s req (username a) =
            (s, Inr (Render ''posts/profile.html''
                       [(''author'', CUser a), (''page_obj'', CPage pg),
                        (''following'', CBool following)]))
          \<and> get_paginator to_int req (author_posts_all s a) = Inr pg
          \<and> page_size_ok (requested_page to_int req) (author_posts_all s a) pg))
   \<and> (user req = AuthUser u \<longrightarrow>
        (\<exists>pg. follow_index to_int s req =
            (s, Inr (Render ''posts/follow.html'' [(''page_obj'', CPage pg)]))
          \<and> get_paginator to_int req (Post_objects_filter_following s u) = Inr pg
          \<and> page_size_ok (requested_page to_int req) (Post_objects_filter_following s u) pg))"
proof (intro conjI allI impI)
  show "\<exists>pg. get_paginator to_int req post_list = Inr pg
      \<and> page_size_ok (requested_page to_int req) post_list pg"
    by (rule get_paginator_size)
  show "\<exists>pg. index_view to_int s req =
            (s, Inr (Render ''posts/index.html'' [(''page_obj'', CPage pg)]))
      \<and> get_paginator to_int req (Post_objects_all s) = Inr pg
      \<and> page_size_ok (requested_page to_int req) (Post_objects_all s) pg"
    by (rule index_view_renders)
next
  assume "cache_lookup ''index_page'' s req = None"
  then show "snd (index to_int s req) = snd (index_view to_int s req)"
    unfolding index_def by (rule cache_page_miss)
next
  fix r assume "cache_lookup ''index_page'' s req = Some r"
  then show "index to_int s req = (s, Inr r)"
    unfolding index_def by (rule cache_page_hit)
next
  fix pg assume c: "cache_ok to_int s" "page_obj_of (index to_int s req) = Some pg"
  then show "\<exists>s0 req0. get_paginator to_int req0 (Post_objects_all s0) = Inr pg"
    by (rule page_obj_of_index)
  then show "length (page_object_list pg) \<le> 10" using get_paginator_length by blast
next
  assume "g \<in> set (groups s) \<and> distinct (map slug (groups s))"
  then show "\<exists>pg. group_posts to_int s req (slug g) =
            (s, Inr (Render ''posts/group_list.html''
                       [(''group'', CGroup g), (''page_obj'', CPage pg)]))
          \<and> get_paginator to_int req (group_posts_all s g) = Inr pg
          \<and> page_size_ok (requested_page to_int req) (group_posts_all s g) pg"
    using group_posts_renders by blast
next
  assume "a \<in> set (users s) \<and> distinct (map username (users s))"
  then show "\<exists>pg following. profile to_int s req (username a) =
            (s, Inr (Render ''posts/profile.html''
                       [(''author'', CUser a), (''page_obj'', CPage pg),
                        (''following'', CBool following)]))
          \<and> get_paginator to_int req (author_posts_all s a) = Inr pg
          \<and> page_size_ok (requested_page to_int req) (author_posts_all s a) pg"
    using profile_renders by blast
next
  assume "user req = AuthUser u"
  then show "\<exists>pg. follow_index to_int s req =
            (s, Inr (Render ''posts/follow.html'' [(''page_obj'', CPage pg)]))
          \<and> get_paginator to_int req (Post_objects_filter_following s u) = Inr pg
          \<and> page_size_ok (requested_page to_int req) (Post_objects_filter_following s u) pg"
    by (rule follow_index_renders)
qed

text \<open>
  The example: in the state for the feeds each of the four scopes holds thirteen posts;
  page 2 of each feed shows 3 posts and page 1 of the feed of bob shows 10.  In the state
  with the page that is out of date, the answer from the cache has at most 10 posts.
\<close>

theorem feed_page_size_witness:
  "(\<exists>pg. page_obj_of (index dec_int feed_db
             (example_request (AuthUser bob) ''GET'' [(''page'', ''2'')] [])) = Some pg
        \<and> length (page_object_list pg) = 3)
   \<and> (\<exists>pg. page_obj_of (group_posts dec_int feed_db
             (example_request (AuthUser bob) ''GET'' [(''page'', ''2'')] []) ''cats'') = Some pg
        \<and> length (page_object_list pg) = 3)
   \<and> (\<exists>pg. page_obj_of (profile dec_int feed_db
             (example_request (AuthUser bob) ''GET'' [(''page'', ''2'')] []) ''alice'') = Some pg
        \<and> length (page_object_list pg) = 3)
   \<and> (\<exists>pg. page_obj_of (follow_index dec_int feed_db
             (example_request (AuthUser bob) ''GET'' [(''page'', ''2'')] [])) = Some pg
        \<and> length (page_object_list pg) = 3)
   \<and> (\<exists>pg. page_obj_of (follow_index dec_int feed_db
             (example_request (AuthUser bob) ''GET'' [] [])) = Some pg
        \<and> length (page_object_list pg) = 10)
   \<and> cache stale_db \<noteq> []
   \<and> (\<exists>pg. page_obj_of (index dec_int stale_db
             (example_request AnonymousUser ''GET'' [(''page'', ''2'')] [])) = Some pg
        \<and> length (page_object_list pg) \<le> 10)"
proof -
  let ?rq = "example_request (AuthUser bob) ''GET'' [(''page'', ''2'')] []"
  let ?r1 = "example_request (AuthUser bob) ''GET'' [] []"
  note t2 = feed_page_size[of dec_int ?rq thirteen_posts feed_db cats alice bob]
  note t1 = feed_page_size[of dec_int ?r1 thirteen_posts feed_db cats alice bob]
  note view2 = t2[THEN conjunct2, THEN conjunct1]
  note miss2 = t2[THEN conjunct2, THEN conjunct2, THEN conjunct1]
  note grp2 = t2[THEN conjunct2, THEN conjunct2, THEN conjunct2, THEN conjunct2,
      THEN conjunct2, THEN conjunct1]
  note prf2 = t2[THEN conjunct2, THEN conjunct2, THEN conjunct2, THEN conjunct2,
      THEN conjunct2, THEN conjunct2, THEN conjunct1]
  note fol2 = t2[THEN conjunct2, THEN conjunct2, THEN conjunct2, THEN conjunct2,
      THEN conjunct2, THEN conjunct2, THEN conjunct2]
  note fol1 = t1[THEN conjunct2, THEN conjunct2, THEN conjunct2, THEN conjunct2,
      THEN conjunct2, THEN conjunct2, THEN conjunct2]
  have i: "\<exists>pg. page_obj_of (index dec_int feed_db ?rq) = Some pg
        \<and> length (page_object_list pg) = 3"
  proof -
    from view2 obtain pg where
      r: "index_view dec_int feed_db ?rq =
            (feed_db, Inr (Render ''posts/index.html'' [(''page_obj'', CPage pg)]))"
      and z: "page_size_ok (requested_page dec_int ?rq) (Post_objects_all feed_db) pg"
      by (elim exE conjE)
    have "snd (index dec_int feed_db ?rq) = snd (index_view dec_int feed_db ?rq)"
      using miss2 ex_bob_page2(3) by (rule mp)
    then have "page_obj_of (index dec_int feed_db ?rq) = Some pg"
      using r by (simp add: page_obj_of_def)
    moreover have "length (page_object_list pg) = 3"
      using z by (simp add: page_size_ok_def ex_bob_page2(2) ex_feed_lengths(1))
    ultimately show ?thesis by (intro exI conjI)
  qed
  have g: "\<exists>pg. page_obj_of (group_posts dec_int feed_db ?rq ''cats'') = Some pg
        \<and> length (page_object_list pg) = 3"
  proof -
    from grp2 ex_feed_db(1,2) obtain pg where
      r: "group_posts dec_int feed_db ?rq (slug cats) =
            (feed_db, Inr (Render ''posts/group_list.html''
                       [(''group'', CGroup cats), (''page_obj'', CPage pg)]))"
      and z: "page_size_ok (requested_page dec_int ?rq) (group_posts_all feed_db cats) pg"
      by blast
    have "page_obj_of (group_posts dec_int feed_db ?rq ''cats'') = Some pg"
      using r by (simp add: page_obj_of_def ex_feed_db(5))
    moreover have "length (page_object_list pg) = 3"
      using z by (simp add: page_size_ok_def ex_bob_page2(2) ex_feed_lengths(2))
    ultimately show ?thesis by (intro exI conjI)
  qed
  have p: "\<exists>pg. page_obj_of (profile dec_int feed_db ?rq ''alice'') = Some pg
        \<and> length (page_object_list pg) = 3"
  proof -
    from prf2 ex_feed_db(3,4) obtain pg following where
      r: "profile dec_int feed_db ?rq (username alice) =
            (feed_db, Inr (Render ''posts/profile.html''
                       [(''author'', CUser alice), (''page_obj'', CPage pg),
                        (''following'', CBool following)]))"
      and z: "page_size_ok (requested_page dec_int ?rq) (author_posts_all feed_db alice) pg"
      by blast
    have "page_obj_of (profile dec_int feed_db ?rq ''alice'') = Some pg"
      using r by (simp add: page_obj_of_def ex_feed_db(6))
    moreover have "length (page_object_list pg) = 3"
      using z by (simp add: page_size_ok_def ex_bob_page2(2) ex_feed_lengths(3))
    ultimately show ?thesis by (intro exI conjI)
  qed
  have f: "\<exists>pg. page_obj_of (follow_index dec_int feed_db ?rq) = Some pg
        \<and> length (page_object_list pg) = 3"
  proof -
    from fol2 ex_bob_page2(1) obtain pg where
      r: "follow_index dec_int feed_db ?rq =
            (feed_db, Inr (Render ''posts/follow.html'' [(''page_obj'', CPage pg)]))"
      and z: "page_size_ok (requested_page dec_int ?rq)
                (Post_objects_filter_following feed_db bob) pg"
      by blast
    have "page_obj_of (follow_index dec_int feed_db ?rq) = Some pg"
      using r by (simp add: page_obj_of_def)
    moreover have "length (page_object_list pg) = 3"
      using z by (simp add: page_size_ok_def ex_bob_page2(2) ex_feed_lengths(4))
    ultimately show ?thesis by (intro exI conjI)
  qed
  have f1: "\<exists>pg. page_obj_of (follow_index dec_int feed_db ?r1) = Some pg
        \<and> length (page_object_list pg) = 10"
  proof -
    from fol1 ex_bob_page1(1) obtain pg where
      r: "follow_index dec_int feed_db ?r1 =
            (feed_db, Inr (Render ''posts/follow.html'' [(''page_obj'', CPage pg)]))"
      and z: "page_size_ok (requested_page dec_int ?r1)
                (Post_objects_filter_following feed_db bob) pg"
      by blast
    have "page_obj_of (follow_index dec_int feed_db ?r1) = Some pg"
      using r by (simp add: page_obj_of_def)
    moreover have "length (page_object_list pg) = 10"
      using z by (simp add: page_size_ok_def ex_bob_page1(2) ex_feed_lengths(4))
    ultimately show ?thesis by (intro exI conjI)
  qed
  have c: "\<exists>pg. page_obj_of (index dec_int stale_db
             (example_request AnonymousUser ''GET'' [(''page'', ''2'')] [])) = Some pg
        \<and> length (page_object_list pg) \<le> 10"
  proof -
    obtain pg where pg: "page_obj_of (index dec_int stale_db
        (example_request AnonymousUser ''GET'' [(''page'', ''2'')] [])) = Some pg"
      using ex_stale_page(1) by blast
    note t = feed_page_size[of dec_int "example_request AnonymousUser ''GET'' [(''page'', ''2'')] []"
        thirteen_posts stale_db cats alice bob]
    note cached = t[THEN conjunct2, THEN conjunct2, THEN conjunct2, THEN conjunct2,
        THEN conjunct1]
    have "length (page_object_list pg) \<le> 10"
      using cached[rule_format, OF ex_stale_ok pg] by (rule conjunct1)
    then show ?thesis using pg by (intro exI conjI)
  qed
  show ?thesis using i g p f f1 ex_stale_page(2) c by (intro conjI)
qed

text \<open>
  Claim C1 as stated fails for the feed of all posts: in the state with the page that is
  out of date, the collection has 13 posts and the view answers the request for page 2
  from its cache with a page of 2 posts, while the page made of the current collection
  has 3.
\<close>

theorem stale_index_page:
  "length (Post_objects_all stale_db) = 13
   \<and> requested_page dec_int (example_request AnonymousUser ''GET'' [(''page'', ''2'')] []) = Some 2
   \<and> page_obj_of (index dec_int stale_db
        (example_request AnonymousUser ''GET'' [(''page'', ''2'')] [])) \<noteq> None
   \<and> length (page_object_list (the (page_obj_of (index dec_int stale_db
        (example_request AnonymousUser ''GET'' [(''page'', ''2'')] []))))) = 2
   \<and> length (page_object_list (the (page_obj_of (index_view dec_int stale_db
        (example_request AnonymousUser ''GET'' [(''page'', ''2'')] []))))) = 3"
  by code_simp

subsection \<open>Order of a page\<close>

text \<open>
  Claim C8.  In every feed (all posts, the posts of a group, the posts of an author, the
  posts of the followed authors) the posts of a page are in descending order of their
  creation time: of two consecutive posts of a page, the one listed first is not older
  than the one listed after it.
\<close>

theorem feed_page_newest_first:
  assumes "cache_ok to_int s"
    and "r \<in> {index to_int s req, group_posts to_int s req sl, profile to_int s req un,
             follow_index to_int s req}"
    and "page_obj_of r = Some pg"
    and "Suc i < length (page_object_list pg)"
  shows "pub_date (page_object_list pg ! Suc i) \<le> pub_date (page_object_list pg ! i)"
proof -
  have "\<exists>req0 xs. newest_first xs \<and> get_paginator to_int req0 xs = Inr pg"
    using assms(2)
  proof (elim insertE emptyE)
    assume "r = index to_int s req"
    then obtain s0 req0 where "get_paginator to_int req0 (Post_objects_all s0) = Inr pg"
      using page_obj_of_index[OF assms(1)] assms(3) by blast
    then show ?thesis using newest_first_order unfolding Post_objects_all_def by blast
  next
    assume "r = group_posts to_int s req sl"
    then obtain g where "get_paginator to_int req (group_posts_all s g) = Inr pg"
      using page_obj_of_group_posts assms(3) by blast
    then show ?thesis using newest_first_order unfolding group_posts_all_def by blast
  next
    assume "r = profile to_int s req un"
    then obtain a where "get_paginator to_int req (author_posts_all s a) = Inr pg"
      using page_obj_of_profile assms(3) by blast
    then show ?thesis using newest_first_order unfolding author_posts_all_def by blast
  next
    assume "r = follow_index to_int s req"
    then obtain u where "get_paginator to_int req (Post_objects_filter_following s u) = Inr pg"
      using page_obj_of_follow_index assms(3) by blast
    then show ?thesis
      using newest_first_order unfolding Post_objects_filter_following_def by blast
  qed
  then have "newest_first (page_object_list pg)"
    using get_paginator_newest_first by blast
  then show ?thesis using assms(4) by (rule newest_first_nth)
qed

text \<open>
  The example: the first two posts of page 2 of the index, answered from the cache of the
  example state that has seen this request before.
\<close>

theorem feed_page_newest_first_witness:
  "cache cached_db \<noteq> []
   \<and> (\<exists>pg. page_obj_of (index dec_int cached_db
              (example_request AnonymousUser ''GET'' [(''page'', ''2'')] [])) = Some pg
         \<and> Suc 0 < length (page_object_list pg)
         \<and> pub_date (page_object_list pg ! Suc 0) \<le> pub_date (page_object_list pg ! 0))"
proof -
  obtain pg where pg: "page_obj_of (index dec_int cached_db
      (example_request AnonymousUser ''GET'' [(''page'', ''2'')] [])) = Some pg"
    using ex_cached_page by blast
  have len: "Suc 0 < length (page_object_list pg)"
    using ex_cached_page_len pg by simp
  have "pub_date (page_object_list pg ! Suc 0) \<le> pub_date (page_object_list pg ! 0)"
    by (rule feed_page_newest_first[OF ex_cached_ok _ pg len, where sl = "''g''"
          and un = "''alice''"
          and req = "example_request AnonymousUser ''GET'' [(''page'', ''2'')] []"]) simp
  then show ?thesis using pg len ex_cached_nonempty by blast
qed

subsection \<open>Page numbers out of range\<close>

text \<open>
  Claim C9, as amended.  Whatever the collection and the \<open>page\<close> parameter of the
  request, the pagination raises no error and returns a valid page of the collection,
  which is not empty unless the collection is: the requested page when its number is in
  range, the last page when the number is above the last page or below 1, and page 1 when
  the parameter is absent or not an integer.  For a number that is at least 1 this is the
  nearest valid page.
\<close>

theorem get_paginator_serves_valid_page:
  "\<exists>pg. get_paginator to_int req post_list = Inr pg
      \<and> 1 \<le> page_number pg \<and> page_number pg \<le> last_page post_list
      \<and> page_object_list pg = take 10 (drop (nat ((page_number pg - 1) * 10)) post_list)
      \<and> (post_list \<noteq> [] \<longrightarrow> page_object_list pg \<noteq> [])
      \<and> (case requested_page to_int req of
            None \<Rightarrow> page_number pg = 1
          | Some n \<Rightarrow>
              page_number pg =
                (if 1 \<le> n \<and> n \<le> last_page post_list then n else last_page post_list))
      \<and> (\<forall>n. requested_page to_int req = Some n \<and> 1 \<le> n \<longrightarrow>
             page_number pg = nearest_valid_page post_list n)"
proof -
  define k where "k = (case requested_page to_int req of None \<Rightarrow> 1
               | Some n \<Rightarrow> if n < 1 \<or> last_page post_list < n then last_page post_list else n)"
  have k: "1 \<le> k" "k \<le> last_page post_list"
    using last_page_ge1[of post_list] by (auto simp: k_def split: option.splits)
  have e: "get_paginator to_int req post_list =
     Inr \<lparr>page_object_list = take 10 (drop (nat ((k - 1) * 10)) post_list),
          page_number = k, page_paginator = Paginator post_list NUMBER_OF_POSTS\<rparr>"
    unfolding k_def by (rule get_paginator_eq)
  have ne: "post_list \<noteq> [] \<longrightarrow> take 10 (drop (nat ((k - 1) * 10)) post_list) \<noteq> []"
    using page_nonempty k by blast
  have c: "(case requested_page to_int req of
            None \<Rightarrow> k = 1
          | Some n \<Rightarrow> k = (if 1 \<le> n \<and> n \<le> last_page post_list then n else last_page post_list))"
    by (auto simp: k_def split: option.splits)
  have n: "\<forall>n. requested_page to_int req = Some n \<and> 1 \<le> n \<longrightarrow>
             k = nearest_valid_page post_list n"
    using last_page_ge1[of post_list] by (auto simp: k_def nearest_valid_page_def)
  show ?thesis using e k ne c n by (simp split: option.splits)
qed

text \<open>The example: page 2 of the thirteen example posts is in range and is served.\<close>

theorem get_paginator_serves_valid_page_witness:
  "\<exists>pg. get_paginator dec_int (example_request AnonymousUser ''GET'' [(''page'', ''2'')] [])
            thirteen_posts = Inr pg
      \<and> page_number pg = 2 \<and> page_number pg = nearest_valid_page thirteen_posts 2
      \<and> page_object_list pg \<noteq> []"
proof -
  have ne: "thirteen_posts \<noteq> []" using ex_len13 by auto
  show ?thesis
    using get_paginator_serves_valid_page[of dec_int "example_request AnonymousUser ''GET'' [(''page'', ''2'')] []"
        thirteen_posts] ex_req_page2 ex_last_page ne
    by auto
qed

text \<open>
  Claim C9 as stated fails below 1: of the thirteen example posts, whose valid pages are
  1 and 2, the request for page 0 is served page 2, while the nearest valid page is 1.
\<close>

theorem page_zero_serves_last_page:
  "requested_page dec_int (example_request AnonymousUser ''GET'' [(''page'', ''0'')] []) = Some 0
   \<and> map_sum id page_number
       (get_paginator dec_int (example_request AnonymousUser ''GET'' [(''page'', ''0'')] [])
          thirteen_posts) = Inr 2
   \<and> nearest_valid_page thirteen_posts 0 = 1"
  by code_simp

section \<open>Properties: following\<close>

lemma follow_rows_le1:
  assumes "unique_together s"
  shows "length (follow_rows s u a) \<le> 1"
proof -
  have "follow_rows s u a =
      filter (\<lambda>f. (follow_user f, follow_author f) = (user_pk u, user_pk a)) (follows s)"
    by (simp add: follow_rows_def)
  moreover have "length (filter (\<lambda>f. (follow_user f, follow_author f) = (user_pk u, user_pk a))
      (follows s)) \<le> 1"
    using assms unfolding unique_together_def by (rule filter_key_le1)
  ultimately show ?thesis by simp
qed

lemma profile_follow_auth:
  assumes "user req = AuthUser u"
    and "get_object_or_404 (users s) (\<lambda>x. username x = un) = Inr a"
  shows "profile_follow s req un =
     (if username u \<noteq> un \<and> follow_rows s u a = []
      then (s\<lparr>follows := follows s @
                  [\<lparr>follow_pk = fresh_pk (map follow_pk (follows s)),
                    follow_user = user_pk u, follow_author = user_pk a\<rparr>]\<rparr>,
            Inr (Redirect (ProfileUrl un)))
      else (s, Inr (Redirect (ProfileUrl un))))"
  using assms
  by (simp add: profile_follow_def login_required_def profile_follow_view_def
      Follow_objects_filter_def Follow_objects_create_def follow_rows_def Let_def)

lemma profile_follow_users: "users (fst (profile_follow s req un)) = users s"
  by (auto simp: profile_follow_def login_required_def profile_follow_view_def
      Follow_objects_create_def Let_def split: sum.splits actor.splits)

lemma profile_follow_idem:
  "fst (profile_follow (fst (profile_follow s req un)) req un) = fst (profile_follow s req un)"
proof (cases "user req")
  case AnonymousUser
  then show ?thesis by (simp add: profile_follow_def login_required_def)
next
  case (AuthUser u)
  show ?thesis
  proof (cases "get_object_or_404 (users s) (\<lambda>x. username x = un)")
    case (Inl e)
    then show ?thesis using AuthUser
      by (simp add: profile_follow_def login_required_def profile_follow_view_def)
  next
    case (Inr a)
    have g: "get_object_or_404 (users (fst (profile_follow s req un))) (\<lambda>x. username x = un)
               = Inr a"
      using Inr by (simp add: profile_follow_users)
    show ?thesis
      unfolding profile_follow_auth[OF AuthUser g]
      by (simp add: profile_follow_auth[OF AuthUser Inr] follow_rows_def)
  qed
qed

lemma profile_unfollow_auth:
  assumes "user req = AuthUser u"
    and "get_object_or_404 (users s) (\<lambda>x. username x = un) = Inr a"
  shows "profile_unfollow s req un =
     (s\<lparr>follows :=
          filter (\<lambda>f. \<not> (follow_user f = user_pk u \<and> follow_author f = user_pk a)) (follows s)\<rparr>,
      Inr (Redirect (ProfileUrl un)))"
  using assms
  by (simp add: profile_unfollow_def login_required_def profile_unfollow_view_def
      Follow_delete_def)

lemma length_filter_split:
  "length xs = length (filter (\<lambda>x. \<not> P x) xs) + length (filter P xs)"
  by (induction xs) auto

lemma fold_max_ge: "a \<le> fold max xs (a::nat) \<and> (\<forall>x \<in> set xs. x \<le> fold max xs a)"
proof (induction xs arbitrary: a)
  case Nil
  then show ?case by simp
next
  case (Cons y ys)
  have "max y a \<le> fold max ys (max y a)" using Cons.IH by blast
  then show ?case using Cons.IH[of "max y a"] by auto
qed

lemma fresh_pk_notin: "fresh_pk pks \<notin> set pks"
  using fold_max_ge[of 0 pks] by (fastforce simp: fresh_pk_def)

subsection \<open>Evaluations on the example state\<close>

lemma ex_users: "alice \<in> set (users small_db)" "bob \<in> set (users small_db)" "carol \<in> set (users small_db)"
  by (simp_all add: small_db_def)

lemma ex_names: "distinct (map username (users small_db))"
  by (simp add: small_db_def alice_def bob_def carol_def)

lemma ex_unique: "unique_together small_db"
  by (simp add: unique_together_def small_db_def)

lemma ex_pks: "distinct (map post_pk (posts small_db))"
  by (simp add: small_db_def example_post_def)

lemma ex_invalid_post:
  "\<not> is_valid (PostForm example_post_clean small_db
        (or_None (POST (example_request (AuthUser bob) ''POST'' [] [(''text'', [])])))
        (or_None (FILES (example_request (AuthUser bob) ''POST'' [] [(''text'', [])]))) None)"
  by code_simp

lemma ex_invalid_comment:
  "\<not> is_valid (CommentForm example_comment_clean small_db
        (or_None (POST (example_request (AuthUser bob) ''POST'' [] [(''text'', [])]))))"
  by code_simp

lemma ex_create:
  "snd (post_create example_post_clean small_db
      (example_request (AuthUser bob) ''POST'' [] [(''text'', ''hello''), (''author'', ''1'')]))
     = Inr (Redirect (ProfileUrl ''bob''))"
  by code_simp

subsection \<open>Following an author\<close>

text \<open>
  Claim C2.  Let an authenticated user \<open>u\<close> request to follow an existing author \<open>a\<close>,
  in a state where user names are unique and no pair of users has two follow rows.  If
  \<open>u\<close> is not \<open>a\<close>, exactly one follow row from \<open>u\<close> to \<open>a\<close> exists afterwards; if
  \<open>u\<close> is \<open>a\<close>, the state is unchanged.  A second request leaves the state of the
  first, still no pair has two follow rows, and the response is the redirect to the
  profile of \<open>a\<close>.
\<close>

theorem profile_follow_one_relation:
  assumes auth: "user req = AuthUser u"
    and ain: "a \<in> set (users s)" and uin: "u \<in> set (users s)"
    and names: "distinct (map username (users s))"
    and uniq: "unique_together s"
  shows "(u \<noteq> a \<longrightarrow> length (follow_rows (fst (profile_follow s req (username a))) u a) = 1)
       \<and> (u = a \<longrightarrow> fst (profile_follow s req (username a)) = s)
       \<and> fst (profile_follow (fst (profile_follow s req (username a))) req (username a))
           = fst (profile_follow s req (username a))
       \<and> unique_together (fst (profile_follow s req (username a)))
       \<and> snd (profile_follow s req (username a)) = Inr (Redirect (ProfileUrl (username a)))"
proof -
  note g = get_user_by_name[OF names ain]
  note pf = profile_follow_auth[OF auth g]
  have ne: "u \<noteq> a \<Longrightarrow> username u \<noteq> username a"
    using names ain uin by (auto simp: distinct_map inj_on_def)
  have le: "length (follow_rows s u a) \<le> 1" using uniq by (rule follow_rows_le1)
  have one: "u \<noteq> a \<longrightarrow> length (follow_rows (fst (profile_follow s req (username a))) u a) = 1"
    using ne le by (cases "follow_rows s u a") (auto simp: pf follow_rows_def)
  have same: "u = a \<longrightarrow> fst (profile_follow s req (username a)) = s"
    by (simp add: pf)
  have ut: "unique_together (fst (profile_follow s req (username a)))"
    using uniq by (auto simp: pf unique_together_def follow_rows_def filter_empty_conv)
  have rd: "snd (profile_follow s req (username a)) = Inr (Redirect (ProfileUrl (username a)))"
    by (simp add: pf)
  show ?thesis using one same ut rd profile_follow_idem by blast
qed

text \<open>The example: carol, who does not follow alice, requests to follow her.\<close>

theorem profile_follow_one_relation_witness:
  "follow_rows small_db carol alice = []
   \<and> length (follow_rows (fst (profile_follow small_db
         (example_request (AuthUser carol) ''GET'' [] []) ''alice'')) carol alice) = 1
   \<and> snd (profile_follow small_db (example_request (AuthUser carol) ''GET'' [] []) ''alice'')
       = Inr (Redirect (ProfileUrl ''alice''))"
proof -
  have a: "user (example_request (AuthUser carol) ''GET'' [] []) = AuthUser carol"
    by (simp add: example_request_def)
  have n: "carol \<noteq> alice" by (simp add: carol_def alice_def)
  have e: "follow_rows small_db carol alice = []" by code_simp
  show ?thesis
    using profile_follow_one_relation[OF a ex_users(1) ex_users(3) ex_names ex_unique] n e
    by (simp add: alice_def)
qed

subsection \<open>Unfollowing an author\<close>

text \<open>
  Claim C3.  Let an authenticated user \<open>u\<close> request to unfollow an existing author
  \<open>a\<close>, in a state where user names are unique and no pair of users has two follow
  rows.  The response is the redirect to the profile of \<open>a\<close> and no error; only the
  follow table changes, and it loses exactly the follow rows from \<open>u\<close> to \<open>a\<close>, of
  which there is at most one; if there is none, the state is unchanged; a second request
  leaves the state of the first.
\<close>

theorem profile_unfollow_idempotent:
  assumes auth: "user req = AuthUser u"
    and ain: "a \<in> set (users s)"
    and names: "distinct (map username (users s))"
    and uniq: "unique_together s"
  shows "snd (profile_unfollow s req (username a)) = Inr (Redirect (ProfileUrl (username a)))
       \<and> fst (profile_unfollow s req (username a)) =
           s\<lparr>follows := follows (fst (profile_unfollow s req (username a)))\<rparr>
       \<and> length (follows s) =
           length (follows (fst (profile_unfollow s req (username a))))
             + length (follow_rows s u a)
       \<and> length (follow_rows s u a) \<le> 1
       \<and> set (follows (fst (profile_unfollow s req (username a)))) \<subseteq> set (follows s)
       \<and> follow_rows (fst (profile_unfollow s req (username a))) u a = []
       \<and> (follow_rows s u a = [] \<longrightarrow> fst (profile_unfollow s req (username a)) = s)
       \<and> fst (profile_unfollow (fst (profile_unfollow s req (username a))) req (username a))
           = fst (profile_unfollow s req (username a))"
proof -
  note g = get_user_by_name[OF names ain]
  note pu = profile_unfollow_auth[OF auth g]
  define s' where "s' = fst (profile_unfollow s req (username a))"
  have s': "s' = s\<lparr>follows :=
          filter (\<lambda>f. \<not> (follow_user f = user_pk u \<and> follow_author f = user_pk a)) (follows s)\<rparr>"
    by (simp add: s'_def pu)
  have g': "get_object_or_404 (users s') (\<lambda>x. username x = username a) = Inr a"
    using g by (simp add: s')
  have 1: "snd (profile_unfollow s req (username a)) = Inr (Redirect (ProfileUrl (username a)))"
    by (simp add: pu)
  have 2: "s' = s\<lparr>follows := follows s'\<rparr>" by (simp add: s')
  have 3: "length (follows s) = length (follows s') + length (follow_rows s u a)"
    using length_filter_split[of "follows s"
        "\<lambda>f. follow_user f = user_pk u \<and> follow_author f = user_pk a"]
    by (simp add: s' follow_rows_def)
  have 4: "length (follow_rows s u a) \<le> 1" using uniq by (rule follow_rows_le1)
  have 5: "set (follows s') \<subseteq> set (follows s)" by (auto simp: s')
  have 6: "follow_rows s' u a = []" by (auto simp: s' follow_rows_def filter_empty_conv)
  have 7: "follow_rows s u a = [] \<longrightarrow> s' = s"
  proof
    assume "follow_rows s u a = []"
    then have "filter (\<lambda>f. \<not> (follow_user f = user_pk u \<and> follow_author f = user_pk a))
                 (follows s) = follows s"
      by (auto simp: follow_rows_def filter_empty_conv filter_id_conv)
    then show "s' = s" by (simp add: s')
  qed
  have 8: "fst (profile_unfollow s' req (username a)) = s'"
    by (simp add: profile_unfollow_auth[OF auth g']) (simp add: s')
  show ?thesis using 1 2 3 4 5 6 7 8 unfolding s'_def by blast
qed

text \<open>
  The example: bob, who follows alice, unfollows her, which deletes the only follow row;
  carol, who does not follow alice, unfollows her, which changes nothing.
\<close>

theorem profile_unfollow_idempotent_witness:
  "length (follows small_db) = 1
   \<and> follows (fst (profile_unfollow small_db
         (example_request (AuthUser bob) ''GET'' [] []) ''alice'')) = []
   \<and> snd (profile_unfollow small_db (example_request (AuthUser bob) ''GET'' [] []) ''alice'')
       = Inr (Redirect (ProfileUrl ''alice''))
   \<and> fst (profile_unfollow small_db (example_request (AuthUser carol) ''GET'' [] []) ''alice'')
       = small_db"
proof -
  have b: "user (example_request (AuthUser bob) ''GET'' [] []) = AuthUser bob"
    by (simp add: example_request_def)
  have c: "user (example_request (AuthUser carol) ''GET'' [] []) = AuthUser carol"
    by (simp add: example_request_def)
  have l: "length (follows small_db) = 1" by (simp add: small_db_def)
  have r: "length (follow_rows small_db bob alice) = 1" by code_simp
  have e: "follow_rows small_db carol alice = []" by code_simp
  show ?thesis
    using profile_unfollow_idempotent[OF b ex_users(1) ex_names ex_unique] profile_unfollow_idempotent[OF c ex_users(1) ex_names ex_unique] l r e
    by (simp add: alice_def)
qed

subsection \<open>The feed of the followed authors\<close>

text \<open>
  Claim C5.  For an authenticated user \<open>u\<close> the view of the followed authors always
  renders a page of the feed of \<open>u\<close>, and a post \<open>p\<close> is in this feed if and only if
  it is a post of the post table and there is a follow row from \<open>u\<close> to the author of
  \<open>p\<close>.  Every post that the page shows is in the feed: the page never shows a post of
  an author whom \<open>u\<close> does not follow.  Every post of a followed author is shown: it is
  on one page of the feed, which the view renders when the request names the number of
  that page, and on the page of every request when the feed has at most 10 posts.
\<close>

theorem follow_index_only_followed:
  assumes "user req = AuthUser u"
  shows "\<exists>pg. follow_index to_int s req =
              (s, Inr (Render ''posts/follow.html'' [(''page_obj'', CPage pg)]))
      \<and> page_object_list pg =
          take 10 (drop (nat ((page_number pg - 1) * 10)) (Post_objects_filter_following s u))
      \<and> (\<forall>q \<in> set (page_object_list pg).
            q \<in> set (posts s)
          \<and> (\<exists>f \<in> set (follows s).
                follow_user f = user_pk u \<and> follow_author f = post_author q))
      \<and> (\<forall>p \<in> set (posts s).
            (\<exists>f \<in> set (follows s).
                follow_user f = user_pk u \<and> follow_author f = post_author p) \<longrightarrow>
              p \<in> set (Post_objects_filter_following s u)
            \<and> 1 \<le> page_holding (Post_objects_filter_following s u) p
            \<and> page_holding (Post_objects_filter_following s u) p
                 \<le> last_page (Post_objects_filter_following s u)
            \<and> (requested_page to_int req
                  = Some (page_holding (Post_objects_filter_following s u) p) \<longrightarrow>
                p \<in> set (page_object_list pg))
            \<and> (length (Post_objects_filter_following s u) \<le> 10 \<longrightarrow>
                p \<in> set (page_object_list pg)))
      \<and> (\<forall>p. p \<in> set (Post_objects_filter_following s u) \<longleftrightarrow>
            p \<in> set (posts s)
          \<and> (\<exists>f \<in> set (follows s).
                follow_user f = user_pk u \<and> follow_author f = post_author p))"
proof -
  define feed where "feed = Post_objects_filter_following s u"
  define k where "k = (case requested_page to_int req of None \<Rightarrow> 1
               | Some n \<Rightarrow> if n < 1 \<or> last_page feed < n then last_page feed else n)"
  define pg where "pg = \<lparr>page_object_list = take 10 (drop (nat ((k - 1) * 10)) feed),
          page_number = k, page_paginator = Paginator feed NUMBER_OF_POSTS\<rparr>"
  have gp: "get_paginator to_int req feed = Inr pg"
    unfolding pg_def k_def by (rule get_paginator_eq)
  have view: "follow_index to_int s req =
              (s, Inr (Render ''posts/follow.html'' [(''page_obj'', CPage pg)]))"
    using assms gp
    by (simp add: follow_index_def login_required_def follow_index_view_def feed_def)
  have content: "page_object_list pg = take 10 (drop (nat ((page_number pg - 1) * 10)) feed)"
    by (simp add: pg_def)
  have sub: "set (page_object_list pg) \<subseteq> set feed"
    unfolding content using set_take_subset set_drop_subset by fast
  have sound: "\<forall>q \<in> set (page_object_list pg).
            q \<in> set (posts s)
          \<and> (\<exists>f \<in> set (follows s).
                follow_user f = user_pk u \<and> follow_author f = post_author q)"
    using sub following_iff[of _ s u] unfolding feed_def by blast
  have complete: "\<forall>p \<in> set (posts s).
            (\<exists>f \<in> set (follows s).
                follow_user f = user_pk u \<and> follow_author f = post_author p) \<longrightarrow>
              p \<in> set feed
            \<and> 1 \<le> page_holding feed p
            \<and> page_holding feed p \<le> last_page feed
            \<and> (requested_page to_int req = Some (page_holding feed p) \<longrightarrow>
                p \<in> set (page_object_list pg))
            \<and> (length feed \<le> 10 \<longrightarrow> p \<in> set (page_object_list pg))"
  proof (intro ballI impI)
    fix p assume "p \<in> set (posts s)"
      and "\<exists>f \<in> set (follows s). follow_user f = user_pk u \<and> follow_author f = post_author p"
    then have mem: "p \<in> set feed" unfolding feed_def using following_iff by blast
    note b = page_holding_bounds[OF mem]
    have at: "requested_page to_int req = Some (page_holding feed p) \<longrightarrow>
                p \<in> set (page_object_list pg)"
    proof
      assume "requested_page to_int req = Some (page_holding feed p)"
      then have "k = page_holding feed p" using b by (simp add: k_def)
      then show "p \<in> set (page_object_list pg)"
        using page_holding_mem[OF mem] by (simp add: pg_def)
    qed
    have small: "length feed \<le> 10 \<longrightarrow> p \<in> set (page_object_list pg)"
    proof
      assume le: "length feed \<le> 10"
      then have "last_page feed = 1" by (rule last_page_small)
      then have "k = 1" by (auto simp: k_def split: option.splits)
      then show "p \<in> set (page_object_list pg)" using mem le by (simp add: pg_def)
    qed
    show "p \<in> set feed
            \<and> 1 \<le> page_holding feed p
            \<and> page_holding feed p \<le> last_page feed
            \<and> (requested_page to_int req = Some (page_holding feed p) \<longrightarrow>
                p \<in> set (page_object_list pg))
            \<and> (length feed \<le> 10 \<longrightarrow> p \<in> set (page_object_list pg))"
      using mem b at small by blast
  qed
  have iff: "\<forall>p. p \<in> set feed \<longleftrightarrow>
            p \<in> set (posts s)
          \<and> (\<exists>f \<in> set (follows s).
                follow_user f = user_pk u \<and> follow_author f = post_author p)"
    unfolding feed_def using following_iff by blast
  show ?thesis
    using view content sound complete iff unfolding feed_def by blast
qed

text \<open>
  The example: bob follows alice only.  In the small state the page of his feed shows the
  first post of alice and does not show the post of carol; in the state for the feeds,
  where alice wrote thirteen posts, her oldest post is on page 2 of his feed.
\<close>

theorem follow_index_only_followed_witness:
  "(\<exists>pg. follow_index dec_int small_db (example_request (AuthUser bob) ''GET'' [] []) =
            (small_db, Inr (Render ''posts/follow.html'' [(''page_obj'', CPage pg)]))
        \<and> example_post 0 \<in> set (page_object_list pg)
        \<and> \<lparr>post_pk = 9, post_text = ''by carol'', pub_date = 1, post_author = 3,
            post_group = None, post_image = []\<rparr> \<notin> set (page_object_list pg))
   \<and> (\<exists>pg. follow_index dec_int feed_db
              (example_request (AuthUser bob) ''GET'' [(''page'', ''2'')] []) =
            (feed_db, Inr (Render ''posts/follow.html'' [(''page_obj'', CPage pg)]))
        \<and> (example_post 0)\<lparr>post_group := Some 1\<rparr> \<in> set (page_object_list pg))"
proof -
  let ?r1 = "example_request (AuthUser bob) ''GET'' [] []"
  let ?rq = "example_request (AuthUser bob) ''GET'' [(''page'', ''2'')] []"
  let ?carol = "\<lparr>post_pk = 9, post_text = ''by carol'', pub_date = 1, post_author = 3,
            post_group = None, post_image = []\<rparr>"
  have a: "\<exists>pg. follow_index dec_int small_db ?r1 =
            (small_db, Inr (Render ''posts/follow.html'' [(''page_obj'', CPage pg)]))
        \<and> example_post 0 \<in> set (page_object_list pg)
        \<and> ?carol \<notin> set (page_object_list pg)"
  proof -
    from follow_index_only_followed[OF ex_bob_page1(1), of dec_int small_db] obtain pg where
      view: "follow_index dec_int small_db ?r1 =
            (small_db, Inr (Render ''posts/follow.html'' [(''page_obj'', CPage pg)]))"
      and sound: "\<forall>q \<in> set (page_object_list pg).
            q \<in> set (posts small_db)
          \<and> (\<exists>f \<in> set (follows small_db).
                follow_user f = user_pk bob \<and> follow_author f = post_author q)"
      and complete: "\<forall>p \<in> set (posts small_db).
            (\<exists>f \<in> set (follows small_db).
                follow_user f = user_pk bob \<and> follow_author f = post_author p) \<longrightarrow>
              p \<in> set (Post_objects_filter_following small_db bob)
            \<and> 1 \<le> page_holding (Post_objects_filter_following small_db bob) p
            \<and> page_holding (Post_objects_filter_following small_db bob) p
                 \<le> last_page (Post_objects_filter_following small_db bob)
            \<and> (requested_page dec_int ?r1
                  = Some (page_holding (Post_objects_filter_following small_db bob) p) \<longrightarrow>
                p \<in> set (page_object_list pg))
            \<and> (length (Post_objects_filter_following small_db bob) \<le> 10 \<longrightarrow>
                p \<in> set (page_object_list pg))"
      by (elim exE conjE)
    have "example_post 0 \<in> set (page_object_list pg)"
      using complete[rule_format, OF ex_small_feed(2) ex_small_feed(3)] ex_small_feed(1)
      by (elim conjE) (erule mp)
    moreover have "?carol \<notin> set (page_object_list pg)"
    proof
      assume "?carol \<in> set (page_object_list pg)"
      with sound have "?carol \<in> set (posts small_db)
          \<and> (\<exists>f \<in> set (follows small_db).
                follow_user f = user_pk bob \<and> follow_author f = post_author ?carol)"
        by (rule bspec)
      then have "\<exists>f \<in> set (follows small_db).
                follow_user f = user_pk bob \<and> follow_author f = post_author ?carol"
        by (rule conjunct2)
      with ex_small_feed(4) show False by (rule notE)
    qed
    ultimately show ?thesis using view by (intro exI conjI)
  qed
  have b: "\<exists>pg. follow_index dec_int feed_db ?rq =
            (feed_db, Inr (Render ''posts/follow.html'' [(''page_obj'', CPage pg)]))
        \<and> (example_post 0)\<lparr>post_group := Some 1\<rparr> \<in> set (page_object_list pg)"
  proof -
    from follow_index_only_followed[OF ex_bob_page2(1), of dec_int feed_db] obtain pg where
      view: "follow_index dec_int feed_db ?rq =
            (feed_db, Inr (Render ''posts/follow.html'' [(''page_obj'', CPage pg)]))"
      and complete: "\<forall>p \<in> set (posts feed_db).
            (\<exists>f \<in> set (follows feed_db).
                follow_user f = user_pk bob \<and> follow_author f = post_author p) \<longrightarrow>
              p \<in> set (Post_objects_filter_following feed_db bob)
            \<and> 1 \<le> page_holding (Post_objects_filter_following feed_db bob) p
            \<and> page_holding (Post_objects_filter_following feed_db bob) p
                 \<le> last_page (Post_objects_filter_following feed_db bob)
            \<and> (requested_page dec_int ?rq
                  = Some (page_holding (Post_objects_filter_following feed_db bob) p) \<longrightarrow>
                p \<in> set (page_object_list pg))
            \<and> (length (Post_objects_filter_following feed_db bob) \<le> 10 \<longrightarrow>
                p \<in> set (page_object_list pg))"
      by (elim exE conjE)
    have "requested_page dec_int ?rq
            = Some (page_holding (Post_objects_filter_following feed_db bob)
                      ((example_post 0)\<lparr>post_group := Some 1\<rparr>))"
      by (simp only: ex_oldest(3) ex_bob_page2(2))
    then have "(example_post 0)\<lparr>post_group := Some 1\<rparr> \<in> set (page_object_list pg)"
      using complete[rule_format, OF ex_oldest(1) ex_oldest(2)] by (elim conjE) (erule mp)
    then show ?thesis using view by (intro exI conjI)
  qed
  show ?thesis using a b by (intro conjI)
qed

section \<open>Properties: authorisation and forms\<close>

subsection \<open>Editing the post of another user\<close>

text \<open>
  Claim C4.  For every post \<open>p\<close> of the post table (whose primary keys are distinct) and
  every actor who is not the author of \<open>p\<close>, the anonymous user included, an edit
  request on \<open>p\<close> is answered with the redirect to the detail view of \<open>p\<close> and leaves
  the whole state, hence \<open>p\<close> and its text, unchanged, whatever the request submits.
\<close>

theorem post_edit_non_author_redirects:
  assumes "p \<in> set (posts s)" and "distinct (map post_pk (posts s))"
    and "user req = AnonymousUser \<or> (\<exists>u. user req = AuthUser u \<and> user_pk u \<noteq> post_author p)"
  shows "post_edit pc s req (post_pk p) = (s, Inr (Redirect (PostDetailUrl (post_pk p))))"
proof -
  have "user_differs (user req) (post_author p)" using assms(3) by auto
  then show ?thesis
    using get_post_by_pk[OF assms(2,1)] by (simp add: post_edit_def)
qed

text \<open>
  The example: bob and the anonymous user submit a new text for the first post, which
  alice wrote.
\<close>

theorem post_edit_non_author_redirects_witness:
  "post_edit example_post_clean small_db
      (example_request (AuthUser bob) ''POST'' [] [(''text'', ''changed'')]) 1
     = (small_db, Inr (Redirect (PostDetailUrl 1)))
   \<and> post_edit example_post_clean small_db
      (example_request AnonymousUser ''POST'' [] [(''text'', ''changed'')]) 1
     = (small_db, Inr (Redirect (PostDetailUrl 1)))"
proof -
  have p: "example_post 0 \<in> set (posts small_db)" by (simp add: small_db_def)
  have k: "post_pk (example_post 0) = 1" by (simp add: example_post_def)
  have b: "user (example_request (AuthUser bob) ''POST'' [] [(''text'', ''changed'')]) = AnonymousUser
     \<or> (\<exists>u. user (example_request (AuthUser bob) ''POST'' [] [(''text'', ''changed'')]) = AuthUser u
           \<and> user_pk u \<noteq> post_author (example_post 0))"
    by (simp add: example_request_def bob_def example_post_def)
  have a: "user (example_request AnonymousUser ''POST'' [] [(''text'', ''changed'')]) = AnonymousUser
     \<or> (\<exists>u. user (example_request AnonymousUser ''POST'' [] [(''text'', ''changed'')]) = AuthUser u
           \<and> user_pk u \<noteq> post_author (example_post 0))"
    by (simp add: example_request_def)
  show ?thesis
    using post_edit_non_author_redirects[OF p ex_pks b, of example_post_clean] post_edit_non_author_redirects[OF p ex_pks a, of example_post_clean]
    by (simp add: k)
qed

subsection \<open>Anonymous requests\<close>

text \<open>
  Claim C6, as amended.  A request of the anonymous user to create a post, to add a
  comment, to follow or to unfollow an author is answered with the redirect to the login
  page, whose \<open>next\<close> parameter is the full path of the request, and changes nothing.
  The edit view has no such guard: the anonymous request to edit a post changes nothing
  either, and for an existing post it is answered with the redirect to the detail view
  of the post.
\<close>

theorem anonymous_mutation_redirects:
  assumes "user req = AnonymousUser"
  shows "post_create pc s req = (s, Inr (Redirect (LoginUrl (get_full_path req))))
       \<and> add_comment cc s req post_id = (s, Inr (Redirect (LoginUrl (get_full_path req))))
       \<and> profile_follow s req un = (s, Inr (Redirect (LoginUrl (get_full_path req))))
       \<and> profile_unfollow s req un = (s, Inr (Redirect (LoginUrl (get_full_path req))))
       \<and> fst (post_edit pc s req post_id) = s
       \<and> (\<forall>p. get_object_or_404 (posts s) (\<lambda>q. post_pk q = post_id) = Inr p \<longrightarrow>
             post_edit pc s req post_id = (s, Inr (Redirect (PostDetailUrl post_id))))"
  using assms
  by (auto simp: post_create_def add_comment_def profile_follow_def profile_unfollow_def
      login_required_def post_edit_def split: sum.splits)

text \<open>The example: the anonymous user submits a text to the four guarded views and to the edit view.\<close>

theorem anonymous_mutation_redirects_witness:
  "post_create example_post_clean small_db
      (example_request AnonymousUser ''POST'' [] [(''text'', ''hello'')])
     = (small_db, Inr (Redirect (LoginUrl (''/'', []))))
   \<and> add_comment example_comment_clean small_db
      (example_request AnonymousUser ''POST'' [] [(''text'', ''hello'')]) 1
     = (small_db, Inr (Redirect (LoginUrl (''/'', []))))
   \<and> profile_follow small_db
      (example_request AnonymousUser ''POST'' [] [(''text'', ''hello'')]) ''alice''
     = (small_db, Inr (Redirect (LoginUrl (''/'', []))))
   \<and> post_edit example_post_clean small_db
      (example_request AnonymousUser ''POST'' [] [(''text'', ''hello'')]) 1
     = (small_db, Inr (Redirect (PostDetailUrl 1)))"
proof -
  have a: "user (example_request AnonymousUser ''POST'' [] [(''text'', ''hello'')]) = AnonymousUser"
    by (simp add: example_request_def)
  have f: "get_full_path (example_request AnonymousUser ''POST'' [] [(''text'', ''hello'')])
             = (''/'', [])"
    by (simp add: example_request_def get_full_path_def)
  have g: "get_object_or_404 (posts small_db) (\<lambda>q. post_pk q = 1) = Inr (example_post 0)"
    by (simp add: get_object_or_404_def small_db_def example_post_def)
  show ?thesis
    using anonymous_mutation_redirects[OF a, of example_post_clean small_db example_comment_clean 1 "''alice''"] g
    by (simp add: f)
qed

text \<open>
  Claim C6 as stated fails for the edit route: the anonymous request to edit the first
  post of the example state is answered with the redirect to the detail view of the
  post, not to the login page.
\<close>

theorem anonymous_post_edit_not_login:
  "post_edit example_post_clean small_db
      ((example_request AnonymousUser ''GET'' [] [])\<lparr>path := ''/posts/1/edit/''\<rparr>) 1
     = (small_db, Inr (Redirect (PostDetailUrl 1)))
   \<and> snd (post_edit example_post_clean small_db
        ((example_request AnonymousUser ''GET'' [] [])\<lparr>path := ''/posts/1/edit/''\<rparr>) 1)
       \<noteq> Inr (Redirect (LoginUrl (''/posts/1/edit/'', [])))
   \<and> get_full_path ((example_request AnonymousUser ''GET'' [] [])\<lparr>path := ''/posts/1/edit/''\<rparr>)
       = (''/posts/1/edit/'', [])"
  by (simp add: post_edit_def get_object_or_404_def small_db_def example_post_def
      example_request_def get_full_path_def)

subsection \<open>Forms that are not valid\<close>

text \<open>
  Claim C7, as amended.  Let the user be authenticated.  When the form of a post creation
  request is not valid, the view renders the creation page again with this form and
  changes nothing; so does the edit view for a request of the author of the post, with
  the form on the post.  The validation messages of the form are not empty whenever the
  request submitted any data or file.  When the form of a comment on an existing post is
  not valid, no page is rendered: the view redirects to the detail view of the post and
  changes nothing.
\<close>

theorem invalid_form_changes_nothing:
  assumes "user req = AuthUser u"
  shows "(\<not> is_valid (PostForm pc s (or_None (POST req)) (or_None (FILES req)) None) \<longrightarrow>
          post_create pc s req =
            (s, Inr (Render ''posts/post_create.html''
               [(''form'', CPostForm (PostForm pc s (or_None (POST req)) (or_None (FILES req))
                                       None))])))
       \<and> (get_object_or_404 (posts s) (\<lambda>q. post_pk q = post_id) = Inr p
           \<and> user_pk u = post_author p
           \<and> \<not> is_valid (PostForm pc s (or_None (POST req)) (or_None (FILES req)) (Some p)) \<longrightarrow>
          post_edit pc s req post_id =
            (s, Inr (Render ''posts/post_create.html''
               [(''form'', CPostForm (PostForm pc s (or_None (POST req)) (or_None (FILES req))
                                       (Some p))),
                (''is_edit'', CBool True), (''post_id'', CNat post_id)])))
       \<and> (get_object_or_404 (posts s) (\<lambda>q. post_pk q = post_id) = Inr p
           \<and> \<not> is_valid (CommentForm cc s (or_None (POST req))) \<longrightarrow>
          add_comment cc s req post_id = (s, Inr (Redirect (PostDetailUrl post_id))))
       \<and> ((POST req \<noteq> [] \<or> FILES req \<noteq> [])
           \<and> \<not> is_valid (PostForm pc s (or_None (POST req)) (or_None (FILES req)) inst) \<longrightarrow>
          errors (PostForm pc s (or_None (POST req)) (or_None (FILES req)) inst) \<noteq> [])"
proof (intro conjI impI)
  assume "\<not> is_valid (PostForm pc s (or_None (POST req)) (or_None (FILES req)) None)"
  then show "post_create pc s req =
            (s, Inr (Render ''posts/post_create.html''
               [(''form'', CPostForm (PostForm pc s (or_None (POST req)) (or_None (FILES req))
                                       None))]))"
    using assms by (simp add: post_create_def login_required_def post_create_view_def Let_def)
next
  assume "get_object_or_404 (posts s) (\<lambda>q. post_pk q = post_id) = Inr p
           \<and> user_pk u = post_author p
           \<and> \<not> is_valid (PostForm pc s (or_None (POST req)) (or_None (FILES req)) (Some p))"
  then show "post_edit pc s req post_id =
            (s, Inr (Render ''posts/post_create.html''
               [(''form'', CPostForm (PostForm pc s (or_None (POST req)) (or_None (FILES req))
                                       (Some p))),
                (''is_edit'', CBool True), (''post_id'', CNat post_id)]))"
    using assms by (simp add: post_edit_def Let_def)
next
  assume "get_object_or_404 (posts s) (\<lambda>q. post_pk q = post_id) = Inr p
           \<and> \<not> is_valid (CommentForm cc s (or_None (POST req)))"
  then show "add_comment cc s req post_id = (s, Inr (Redirect (PostDetailUrl post_id)))"
    using assms by (simp add: add_comment_def login_required_def add_comment_view_def Let_def)
next
  assume "(POST req \<noteq> [] \<or> FILES req \<noteq> [])
           \<and> \<not> is_valid (PostForm pc s (or_None (POST req)) (or_None (FILES req)) inst)"
  then show "errors (PostForm pc s (or_None (POST req)) (or_None (FILES req)) inst) \<noteq> []"
    by (auto simp: is_valid_def PostForm_def bind_form_def or_None_def split: prod.splits)
qed

text \<open>The example: bob submits an empty text, as a post and as a comment on the first post.\<close>

theorem invalid_form_changes_nothing_witness:
  "fst (post_create example_post_clean small_db
      (example_request (AuthUser bob) ''POST'' [] [(''text'', [])])) = small_db
   \<and> errors (PostForm example_post_clean small_db
        (or_None (POST (example_request (AuthUser bob) ''POST'' [] [(''text'', [])])))
        (or_None (FILES (example_request (AuthUser bob) ''POST'' [] [(''text'', [])]))) None)
       \<noteq> []
   \<and> add_comment example_comment_clean small_db
        (example_request (AuthUser bob) ''POST'' [] [(''text'', [])]) 1
       = (small_db, Inr (Redirect (PostDetailUrl 1)))"
proof -
  have a: "user (example_request (AuthUser bob) ''POST'' [] [(''text'', [])]) = AuthUser bob"
    by (simp add: example_request_def)
  have g: "get_object_or_404 (posts small_db) (\<lambda>q. post_pk q = 1) = Inr (example_post 0)"
    by (simp add: get_object_or_404_def small_db_def example_post_def)
  have n: "POST (example_request (AuthUser bob) ''POST'' [] [(''text'', [])]) \<noteq> []"
    by (simp add: example_request_def)
  show ?thesis
    using invalid_form_changes_nothing[OF a, of example_post_clean small_db 1 "example_post 0" example_comment_clean None]
      g n ex_invalid_post ex_invalid_comment
    by simp
qed

text \<open>
  Claim C7 as stated fails for comments: the comment form with an empty text is not
  valid, and the response is the redirect to the detail view of the post, not a page
  with the form and its validation messages.
\<close>

theorem invalid_comment_redirects:
  "\<not> is_valid (CommentForm example_comment_clean small_db
        (or_None (POST ((example_request (AuthUser bob) ''POST'' [] [(''text'', [])])
                          \<lparr>path := ''/posts/1/comment/''\<rparr>))))
   \<and> add_comment example_comment_clean small_db
        ((example_request (AuthUser bob) ''POST'' [] [(''text'', [])])
           \<lparr>path := ''/posts/1/comment/''\<rparr>) 1
       = (small_db, Inr (Redirect (PostDetailUrl 1)))"
  by code_simp

subsection \<open>The author of a new post\<close>

text \<open>
  Claim C10.  When the post creation request of an authenticated user \<open>u\<close> succeeds,
  that is, is answered with a redirect, then exactly one post was added to the post
  table, under a primary key that was not in use, and its author is \<open>u\<close>, whatever the
  validation of the form makes of the submitted data; the redirect leads to the profile
  of \<open>u\<close>.
\<close>

theorem post_create_author_is_requester:
  assumes "user req = AuthUser u"
    and "post_create pc s req = (s', Inr (Redirect l))"
  shows "\<exists>p. posts s' = posts s @ [p] \<and> post_author p = user_pk u
           \<and> post_pk p \<notin> set (map post_pk (posts s)) \<and> pub_date p = now req
           \<and> l = ProfileUrl (username u)"
proof -
  define form where "form = PostForm pc s (or_None (POST req)) (or_None (FILES req)) None"
  define c where "c = (if http_method req = ''POST'' \<and> is_valid form then cleaned_data form else None)"
  have pcd: "post_create pc s req =
     (case c of
        Some c \<Rightarrow> (Post_insert s (now req) c (user_pk u), Inr (Redirect (ProfileUrl (username u))))
      | None \<Rightarrow> (s, Inr (Render ''posts/post_create.html'' [(''form'', CPostForm form)])))"
    using assms(1)
    by (auto simp: post_create_def login_required_def post_create_view_def form_def c_def
        Let_def split: option.splits)
  from assms(2) obtain cd where cd: "c = Some cd"
    and s': "s' = Post_insert s (now req) cd (user_pk u)" and l: "l = ProfileUrl (username u)"
    unfolding pcd by (cases c) auto
  show ?thesis
    using fresh_pk_notin[of "map post_pk (posts s)"] by (simp add: s' l Post_insert_def)
qed

text \<open>
  The example: bob, whose primary key is 2, submits a post and names user 1 as its
  author; the author of the new post is user 2.
\<close>

theorem post_create_author_is_requester_witness:
  "\<exists>p. posts (fst (post_create example_post_clean small_db
      (example_request (AuthUser bob) ''POST'' [] [(''text'', ''hello''), (''author'', ''1'')])))
       = posts small_db @ [p] \<and> post_author p = 2"
proof -
  have a: "user (example_request (AuthUser bob) ''POST'' []
              [(''text'', ''hello''), (''author'', ''1'')]) = AuthUser bob"
    by (simp add: example_request_def)
  have r: "post_create example_post_clean small_db
      (example_request (AuthUser bob) ''POST'' [] [(''text'', ''hello''), (''author'', ''1'')])
     = (fst (post_create example_post_clean small_db
      (example_request (AuthUser bob) ''POST'' [] [(''text'', ''hello''), (''author'', ''1'')])),
        Inr (Redirect (ProfileUrl ''bob'')))"
    using ex_create by (simp add: prod_eq_iff)
  show ?thesis using post_create_author_is_requester[OF a r] by (auto simp: bob_def)
qed

end
